theory Spec2Isabelle
  imports Complex_Main "HOL-Library.AList"
begin

section \<open>The polling script \<^verbatim>\<open>yt_polling_v2.py\<close>: data model\<close>

text \<open>
  Times are seconds on the UTC clock, durations are seconds; both are modelled as
  real numbers (Python's \<^verbatim>\<open>float\<close> and \<^verbatim>\<open>datetime\<close> arithmetic, idealised).
  A timestamp string \<^verbatim>\<open>datetime.isoformat()\<close> is represented by the clock value it
  prints: \<^verbatim>\<open>isoformat\<close> is injective on \<^verbatim>\<open>datetime\<close> values.
\<close>

type_synonym time = real

text \<open>
  The exceptions the script can meet. \<^verbatim>\<open>HttpError\<close> carries \<^verbatim>\<open>e.resp.status\<close> when it
  can be read. \<^verbatim>\<open>OtherError\<close> stands for every exception of the transport that is not
  an \<^verbatim>\<open>HttpError\<close> (the loop does not catch it).
\<close>

datatype py_error = HttpError "int option" | OtherError | ValueError | ZeroDivisionError

definition DEFAULT_INTERVAL :: int where
  "DEFAULT_INTERVAL = 60"

definition DEFAULT_T0_HOURS :: real where
  "DEFAULT_T0_HOURS = 3"

definition MAX_BATCH :: nat where
  "MAX_BATCH = 50"

definition QUOTA_PER_CALL :: int where
  "QUOTA_PER_CALL = 1"

text \<open>
  One element of the response's \<^verbatim>\<open>items\<close>: its \<^verbatim>\<open>id\<close>, and the fields the script
  reads from \<^verbatim>\<open>statistics\<close>, \<^verbatim>\<open>snippet\<close> and \<^verbatim>\<open>contentDetails\<close>; \<open>None\<close> is an
  absent key. The counts are the integers that the API's decimal strings denote.
\<close>

record item =
  item_id :: string
  stat_viewCount :: "int option"
  stat_likeCount :: "int option"
  stat_commentCount :: "int option"
  snippet_publishedAt :: "string option"
  snippet_title :: "string option"
  cd_duration :: "string option"

text \<open>The record \<^verbatim>\<open>videos_list_stats\<close> stores under a video id.\<close>

record snapshot =
  viewCount :: "int option"
  likeCount :: "int option"
  commentCount :: "int option"
  publishedAt :: "string option"
  title :: "string option"
  duration :: "string option"

text \<open>
  A Python \<^verbatim>\<open>dict\<close> from video id to record, in insertion order: an association list
  with distinct keys, written with \<^const>\<open>AList.update\<close> (an existing key keeps its
  place and takes the new value, a new key goes to the end).
\<close>

type_synonym snapshots = "(string \<times> snapshot) list"

text \<open>
  The remote service. A request is answered by the items of the response or by an
  exception, after a latency in microseconds (the resolution of \<^verbatim>\<open>utcnow\<close>). The
  service is any function of the number of requests it has received so far and of
  the ids requested.
\<close>

datatype outcome = Response "item list" | Raises py_error

record reply =
  outcome :: outcome
  latency :: nat

type_synonym service = "nat \<Rightarrow> string list \<Rightarrow> reply"

text \<open>
  A cell of a CSV row: a string, an integer (printed by \<^verbatim>\<open>csv.writer\<close>), or the
  timestamp string of a clock value.
\<close>

datatype cell = CStr string | CInt int | CTime time

text \<open>
  What the script does to the outside world, in order: a request to the service
  (clock at the start of the request, the value of \<^verbatim>\<open>attempt\<close>, the batch), a call of
  \<^verbatim>\<open>time.sleep\<close>, the log line of a polled batch (\<^verbatim>\<open>ts_now\<close>, batch size,
  \<^verbatim>\<open>call_count\<close>), and the log line of a batch given up.
\<close>

datatype event =
  EvFetch time nat "string list"
| EvSleep time
| EvPolled time nat nat
| EvSkipped "string list"

text \<open>
  The state the script runs in: the clock, the number of requests the service has
  received, the directories and CSV files of the file system (a file is the list of
  its rows), the local variable \<^verbatim>\<open>call_count\<close> of \<^verbatim>\<open>run_polling_loop\<close>, and the
  events so far. Time passes while a request is answered and while the script
  sleeps. A file is identified by the path string the script builds for it.
  Failures of the file system itself are outside the model.
\<close>

record state =
  clock :: time
  requests :: nat
  dirs :: "string set"
  files :: "string \<rightharpoonup> cell list list"
  call_count :: nat
  trace :: "event list"

datatype status = Aborted | Completed | Crashed py_error | OutOfFuel

section \<open>The functions of the script\<close>

definition log_event :: "event \<Rightarrow> state \<Rightarrow> state" where
  "log_event e s = s\<lparr>trace := trace s @ [e]\<rparr>"

text \<open>\<^verbatim>\<open>time.sleep(secs)\<close>: a negative argument raises \<^verbatim>\<open>ValueError\<close>.\<close>

definition time_sleep :: "real \<Rightarrow> state \<Rightarrow> py_error + state" where
  "time_sleep secs s =
     (if secs < 0 then Inl ValueError
      else Inr (s\<lparr>clock := clock s + secs, trace := trace s @ [EvSleep secs]\<rparr>))"

text \<open>\<^verbatim>\<open>os.path.join(a, b)\<close> on POSIX.\<close>

definition path_join :: "string \<Rightarrow> string \<Rightarrow> string" where
  "path_join a b =
     (if b \<noteq> [] \<and> hd b = CHR ''/'' then b
      else if a = [] \<or> last a = CHR ''/'' then a @ b
      else a @ ''/'' @ b)"

definition snapshot_of :: "item \<Rightarrow> snapshot" where
  "snapshot_of it =
     \<lparr>viewCount = stat_viewCount it,
      likeCount = stat_likeCount it,
      commentCount = stat_commentCount it,
      publishedAt = snippet_publishedAt it,
      title = snippet_title it,
      duration = cd_duration it\<rparr>"

text \<open>The loop of \<^verbatim>\<open>videos_list_stats\<close> over the items: \<^verbatim>\<open>out[vid] = {...}\<close>.\<close>

definition collect_items :: "item list \<Rightarrow> snapshots" where
  "collect_items its = foldl (\<lambda>out it. AList.update (item_id it) (snapshot_of it) out) [] its"

text \<open>
  \<^verbatim>\<open>videos_list_stats(service, video_ids)\<close>: one request; the result is the dict of the
  items, or the exception the request raised.
\<close>

definition videos_list_stats ::
  "service \<Rightarrow> string list \<Rightarrow> state \<Rightarrow> (py_error + snapshots) \<times> state" where
  "videos_list_stats service video_ids s =
     (let r = service (requests s) video_ids;
          s' = s\<lparr>clock := clock s + real (latency r) / 1000000, requests := Suc (requests s)\<rparr>
      in case outcome r of
           Response its \<Rightarrow> (Inr (collect_items its), s')
         | Raises e \<Rightarrow> (Inl e, s'))"

definition ensure_out_dirs :: "string \<Rightarrow> string list \<Rightarrow> state \<Rightarrow> state" where
  "ensure_out_dirs out_dir video_ids s =
     s\<lparr>dirs := dirs s \<union> {out_dir} \<union> (\<lambda>vid. path_join out_dir vid) ` set video_ids\<rparr>"

definition csv_headers :: "cell list" where
  "csv_headers =
     [CStr ''video_id'', CStr ''ts_utc'', CStr ''view_count'', CStr ''like_count'',
      CStr ''comment_count'', CStr ''title'', CStr ''publishedAt'']"

definition int_cell :: "int option \<Rightarrow> cell" where
  "int_cell v = (case v of None \<Rightarrow> CStr [] | Some n \<Rightarrow> CInt n)"

definition str_cell :: "string option \<Rightarrow> cell" where
  "str_cell v = (case v of None \<Rightarrow> CStr [] | Some x \<Rightarrow> CStr x)"

definition csv_row :: "string \<Rightarrow> time \<Rightarrow> snapshot \<Rightarrow> cell list" where
  "csv_row vid ts rec =
     [CStr vid, CTime ts, int_cell (viewCount rec), int_cell (likeCount rec),
      int_cell (commentCount rec), str_cell (title rec), str_cell (publishedAt rec)]"

definition csv_path :: "string \<Rightarrow> string \<Rightarrow> string" where
  "csv_path out_dir vid = path_join (path_join out_dir vid) ''polls.csv''"

text \<open>The body of the loop of \<^verbatim>\<open>append_rows_to_csv\<close>, for one entry of the dict.\<close>

definition append_row :: "string \<Rightarrow> time \<Rightarrow> state \<Rightarrow> string \<times> snapshot \<Rightarrow> state" where
  "append_row out_dir ts s kv =
     (let vid = fst kv; rec = snd kv;
          d = path_join out_dir vid;
          p = path_join d ''polls.csv'';
          header_needed = (files s p = None);
          old = (case files s p of None \<Rightarrow> [] | Some rows \<Rightarrow> rows);
          new = (if header_needed then [csv_headers] else []) @ [csv_row vid ts rec]
      in s\<lparr>dirs := insert d (dirs s), files := (files s)(p \<mapsto> old @ new)\<rparr>)"

definition append_rows_to_csv :: "string \<Rightarrow> snapshots \<Rightarrow> state \<Rightarrow> state" where
  "append_rows_to_csv out_dir snaps s = (let ts = clock s in foldl (append_row out_dir ts) s snaps)"

text \<open>
  \<^verbatim>\<open>estimate_calls\<close>: the float division raises \<^verbatim>\<open>ZeroDivisionError\<close> for a zero
  interval. The argument \<^verbatim>\<open>num_videos\<close> is not used.
\<close>

definition estimate_calls :: "nat \<Rightarrow> int \<Rightarrow> real \<Rightarrow> py_error + int" where
  "estimate_calls num_videos poll_interval_sec t0_hours =
     (if poll_interval_sec = 0 then Inl ZeroDivisionError
      else let intervals = \<lceil>(t0_hours * 3600) / real_of_int poll_interval_sec\<rceil>
           in Inr intervals)"

text \<open>
  The batches: \<^verbatim>\<open>[video_ids[i:i + MAX_BATCH] for i in range(0, len(video_ids), MAX_BATCH)]\<close>.
  \<open>slice xs i j\<close> is \<^verbatim>\<open>xs[i:j]\<close> for \<open>0 \<le> i \<le> j\<close>, and \<open>range_step stop step\<close> is
  \<^verbatim>\<open>range(0, stop, step)\<close> for a positive step (Python raises \<^verbatim>\<open>ValueError\<close> for step
  0; the script's step is the constant 50).
\<close>

definition slice :: "'a list \<Rightarrow> nat \<Rightarrow> nat \<Rightarrow> 'a list" where
  "slice xs i j = take (j - i) (drop i xs)"

definition range_step :: "nat \<Rightarrow> nat \<Rightarrow> nat list" where
  "range_step stop step = map (\<lambda>k. k * step) [0..<(stop + step - 1) div step]"

definition split_batches :: "nat \<Rightarrow> 'a list \<Rightarrow> 'a list list" where
  "split_batches n xs = map (\<lambda>i. slice xs i (i + n)) (range_step (length xs) n)"

definition vid_batches :: "string list \<Rightarrow> string list list" where
  "vid_batches video_ids = split_batches MAX_BATCH video_ids"

definition backoff_initial :: real where
  "backoff_initial = 2"

definition max_retries :: nat where
  "max_retries = 6"

text \<open>
  The inner \<^verbatim>\<open>while True\<close> loop of \<^verbatim>\<open>run_polling_loop\<close> for one batch, entered with
  the current value of \<^verbatim>\<open>attempt\<close>. It returns the exception that left the loop
  uncaught, if any. Every \<^verbatim>\<open>HttpError\<close> is handled the same way, whatever its status.
\<close>

function fetch_loop ::
  "service \<Rightarrow> string \<Rightarrow> time \<Rightarrow> string list \<Rightarrow> nat \<Rightarrow> state \<Rightarrow> py_error option \<times> state" where
  "fetch_loop service out_dir ts_now batch attempt s =
     (case videos_list_stats service batch (log_event (EvFetch (clock s) attempt batch) s) of
        (Inr snaps, s1) \<Rightarrow>
          (let s2 = append_rows_to_csv out_dir snaps s1;
               s3 = s2\<lparr>call_count := call_count s2 + 1\<rparr>
           in (None, log_event (EvPolled ts_now (length batch) (call_count s3)) s3))
      | (Inl e, s1) \<Rightarrow>
          (case e of
             HttpError st \<Rightarrow>
               (if attempt + 1 > max_retries then (None, log_event (EvSkipped batch) s1)
                else (case time_sleep (backoff_initial * 2 ^ (attempt + 1 - 1)) s1 of
                        Inl e' \<Rightarrow> (Some e', s1)
                      | Inr s2 \<Rightarrow> fetch_loop service out_dir ts_now batch (attempt + 1) s2))
           | _ \<Rightarrow> (Some e, s1)))"
  by pat_completeness auto
termination
  by (relation "measure (\<lambda>(service, out_dir, ts_now, batch, attempt, s). Suc max_retries - attempt)") auto

text \<open>
  The \<^verbatim>\<open>for batch in vid_batches\<close> loop of one round. \<open>end_t\<close> is the script's \<^verbatim>\<open>end\<close>.
\<close>

fun poll_batches ::
  "service \<Rightarrow> string \<Rightarrow> time \<Rightarrow> time \<Rightarrow> string list list \<Rightarrow> state \<Rightarrow> py_error option \<times> state" where
  "poll_batches service out_dir end_t ts_now [] s = (None, s)"
| "poll_batches service out_dir end_t ts_now (batch # rest) s =
     (if clock s \<ge> end_t then (None, s)
      else (case fetch_loop service out_dir ts_now batch 0 s of
              (Some e, s1) \<Rightarrow> (Some e, s1)
            | (None, s1) \<Rightarrow> poll_batches service out_dir end_t ts_now rest s1))"

text \<open>
  The outer \<^verbatim>\<open>while datetime.datetime.utcnow() < end\<close> loop. The loop may run for
  any number of rounds, so the model takes fuel: one unit per round, and
  \<^const>\<open>OutOfFuel\<close> with the state reached when it runs out. The unused
  \<^verbatim>\<open>remaining = ... % interval\<close> raises \<^verbatim>\<open>ZeroDivisionError\<close> for a zero interval.
\<close>

fun poll_rounds ::
  "nat \<Rightarrow> service \<Rightarrow> string \<Rightarrow> int \<Rightarrow> time \<Rightarrow> string list list \<Rightarrow> state \<Rightarrow> status \<times> state" where
  "poll_rounds fuel service out_dir interval end_t batches s =
     (if clock s < end_t then
        (case fuel of
           0 \<Rightarrow> (OutOfFuel, s)
         | Suc fuel' \<Rightarrow>
             (let ts_now = clock s in
              case poll_batches service out_dir end_t ts_now batches s of
                (Some e, s1) \<Rightarrow> (Crashed e, s1)
              | (None, s1) \<Rightarrow>
                  (if interval = 0 then (Crashed ZeroDivisionError, s1)
                   else (case time_sleep (real_of_int interval) s1 of
                           Inl e \<Rightarrow> (Crashed e, s1)
                         | Inr s2 \<Rightarrow> poll_rounds fuel' service out_dir interval end_t batches s2))))
      else (Completed, s))"

text \<open>\<^verbatim>\<open>run_polling_loop\<close>; \<open>max_calls = None\<close> is Python's \<^verbatim>\<open>None\<close>.\<close>

definition run_polling_loop ::
  "nat \<Rightarrow> service \<Rightarrow> string list \<Rightarrow> string \<Rightarrow> int \<Rightarrow> real \<Rightarrow> int option \<Rightarrow> state \<Rightarrow> status \<times> state" where
  "run_polling_loop fuel service video_ids out_dir interval t0_hours max_calls s =
     (let s0 = ensure_out_dirs out_dir video_ids s;
          start = clock s0;
          end_t = start + t0_hours * 3600
      in case estimate_calls (length video_ids) interval t0_hours of
           Inl e \<Rightarrow> (Crashed e, s0)
         | Inr intervals \<Rightarrow>
             (if (case max_calls of None \<Rightarrow> False | Some m \<Rightarrow> intervals > m) then (Aborted, s0)
              else poll_rounds fuel service out_dir interval end_t (vid_batches video_ids)
                     (s0\<lparr>call_count := 0\<rparr>)))"

section \<open>Notions used in the statements\<close>

text \<open>
  A sequence of append operations: each is one pass through the body of the loop of
  \<^verbatim>\<open>append_rows_to_csv\<close>, with the timestamp, the video id and the record it writes.
\<close>

definition append_ops :: "string \<Rightarrow> (time \<times> string \<times> snapshot) list \<Rightarrow> state \<Rightarrow> state" where
  "append_ops out_dir ops s = foldl (\<lambda>s' op. append_row out_dir (fst op) s' (snd op)) s ops"

text \<open>The data rows that the operations of \<open>ops\<close> send to the file \<open>p\<close>, in order.\<close>

definition rows_for :: "string \<Rightarrow> string \<Rightarrow> (time \<times> string \<times> snapshot) list \<Rightarrow> cell list list" where
  "rows_for out_dir p ops =
     map (\<lambda>op. csv_row (fst (snd op)) (fst op) (snd (snd op)))
       (filter (\<lambda>op. csv_path out_dir (fst (snd op)) = p) ops)"

text \<open>The rows of a file; a file that does not exist has none.\<close>

definition file_rows :: "state \<Rightarrow> string \<Rightarrow> cell list list" where
  "file_rows s p = (case files s p of None \<Rightarrow> [] | Some rows \<Rightarrow> rows)"

text \<open>
  The video id and the timestamp of a data row. The header has neither: its second
  cell is a plain string, not a timestamp.
\<close>

fun row_video :: "cell list \<Rightarrow> string option" where
  "row_video (CStr vid # CTime ts # rest) = Some vid"
| "row_video r = None"

fun row_ts :: "cell list \<Rightarrow> time option" where
  "row_ts (c # CTime ts # rest) = Some ts"
| "row_ts r = None"

definition rows_of :: "string \<Rightarrow> cell list list \<Rightarrow> cell list list" where
  "rows_of vid rows = filter (\<lambda>r. row_video r = Some vid) rows"

text \<open>The durations of the sleeps among some events, and the requests among them.\<close>

fun sleeps :: "event list \<Rightarrow> real list" where
  "sleeps [] = []"
| "sleeps (EvSleep secs # evs) = secs # sleeps evs"
| "sleeps (e # evs) = sleeps evs"

fun fetches :: "event list \<Rightarrow> (time \<times> nat \<times> string list) list" where
  "fetches [] = []"
| "fetches (EvFetch t attempt batch # evs) = (t, attempt, batch) # fetches evs"
| "fetches (e # evs) = fetches evs"

text \<open>
  The events without their times: what was done, in order. The log line of a polled
  batch keeps nothing.
\<close>

datatype step = Request nat "string list" | Sleep real | Polled | Skipped "string list"

fun step_of :: "event \<Rightarrow> step" where
  "step_of (EvFetch t attempt batch) = Request attempt batch"
| "step_of (EvSleep secs) = Sleep secs"
| "step_of (EvPolled ts_now n c) = Polled"
| "step_of (EvSkipped batch) = Skipped batch"

text \<open>
  The statuses that the module's docstring calls transient: \<^verbatim>\<open>429/5xx\<close>.
\<close>

definition transient :: "int \<Rightarrow> bool" where
  "transient st = (st = 429 \<or> (500 \<le> st \<and> st \<le> 599))"

text \<open>A service that gives the same reply to every request, and a fresh state at time 0.\<close>

definition const_service :: "reply \<Rightarrow> service" where
  "const_service r = (\<lambda>n ids. r)"

definition init_state :: state where
  "init_state = \<lparr>clock = 0, requests = 0, dirs = {}, files = Map.empty, call_count = 0, trace = []\<rparr>"

text \<open>A record and an item to run the functions on.\<close>

definition rec0 :: snapshot where
  "rec0 = \<lparr>viewCount = Some 10, likeCount = None, commentCount = Some 0,
            publishedAt = None, title = Some ''t'', duration = None\<rparr>"

definition item0 :: "string \<Rightarrow> item" where
  "item0 vid = \<lparr>item_id = vid, stat_viewCount = Some 10, stat_likeCount = None,
                stat_commentCount = Some 0, snippet_publishedAt = None,
                snippet_title = Some ''t'', cd_duration = None\<rparr>"

text \<open>
  The states that one pass through the inner loop goes through: after the request,
  after a sleep, and after the rows of a response are appended and logged.
\<close>

definition requested :: "service \<Rightarrow> string list \<Rightarrow> nat \<Rightarrow> state \<Rightarrow> state" where
  "requested service batch attempt s =
     snd (videos_list_stats service batch (log_event (EvFetch (clock s) attempt batch) s))"

definition slept :: "real \<Rightarrow> state \<Rightarrow> state" where
  "slept secs s = s\<lparr>clock := clock s + secs, trace := trace s @ [EvSleep secs]\<rparr>"

definition polled :: "string \<Rightarrow> time \<Rightarrow> string list \<Rightarrow> snapshots \<Rightarrow> state \<Rightarrow> state" where
  "polled out_dir ts_now batch snaps s1 =
     (let s2 = append_rows_to_csv out_dir snaps s1;
          s3 = s2\<lparr>call_count := call_count s2 + 1\<rparr>
      in log_event (EvPolled ts_now (length batch) (call_count s3)) s3)"

text \<open>
  The rows that a file has gained between two states, and the property that every
  first request for a batch (\<^verbatim>\<open>attempt = 0\<close>) among some events started before
  \<open>end_t\<close>.
\<close>

definition new_rows :: "state \<Rightarrow> state \<Rightarrow> string \<Rightarrow> cell list list" where
  "new_rows s s' p = drop (length (file_rows s p)) (file_rows s' p)"

definition first_attempts_before :: "time \<Rightarrow> event list \<Rightarrow> bool" where
  "first_attempts_before end_t evs = (\<forall>f \<in> set (fetches evs). fst (snd f) = 0 \<longrightarrow> fst f < end_t)"

text \<open>A service that answers every request with one item for each id requested.\<close>

definition echo_service :: "nat \<Rightarrow> service" where
  "echo_service lat = (\<lambda>n ids. \<lparr>outcome = Response (map item0 ids), latency = lat\<rparr>)"

section \<open>The batches\<close>

lemma ceil_div_Suc:
  assumes "0 < n" "0 < (m::nat)"
  shows "(m + n - 1) div n = Suc ((m - n + n - 1) div n)"
proof -
  have step: "(a + n) div n = Suc (a div n)" for a
    using assms(1) by simp
  show ?thesis
  proof (cases "n \<le> m")
    case True
    then have e: "m + n - 1 = (m - n + n - 1) + n" using assms by simp
    show ?thesis by (subst e) (rule step)
  next
    case False
    have "n - 1 < n" using assms(1) by simp
    then have a: "(m - n + n - 1) div n = 0" using False by simp
    have "m - 1 < n" using False by simp
    then have b: "(m - 1) div n = 0" by simp
    have e: "m + n - 1 = (m - 1) + n" using assms by simp
    show ?thesis by (subst e) (simp only: step a b)
  qed
qed

lemma pred_div_self: "(n - Suc 0) div n = 0"
  by (cases n) simp_all

lemma split_batches_Nil: "split_batches n [] = []"
  by (simp add: split_batches_def range_step_def pred_div_self)

lemma split_batches_rec:
  assumes "0 < n" "xs \<noteq> []"
  shows "split_batches n xs = take n xs # split_batches n (drop n xs)"
proof -
  let ?m = "length xs"
  have m: "0 < ?m" using assms by simp
  have up: "[0..<Suc k] = 0 # map Suc [0..<k]" for k
    by (simp add: upt_conv_Cons map_Suc_upt del: upt_Suc)
  have len: "length (drop n xs) = ?m - n" by simp
  show ?thesis
    unfolding split_batches_def range_step_def len ceil_div_Suc[OF assms(1) m] up
    by (simp add: slice_def o_def add.commute drop_drop)
qed

lemma concat_split_batches: "0 < n \<Longrightarrow> concat (split_batches n xs) = xs"
proof (induction xs rule: length_induct)
  case (1 xs)
  show ?case
  proof (cases "xs = []")
    case True
    then show ?thesis by (simp add: split_batches_Nil)
  next
    case False
    then have "length (drop n xs) < length xs" using 1(2) by simp
    then have "concat (split_batches n (drop n xs)) = drop n xs" using 1 by blast
    then show ?thesis using split_batches_rec[OF 1(2) False] by simp
  qed
qed

lemma split_batches_nth:
  "k < length (split_batches n xs) \<Longrightarrow> split_batches n xs ! k = slice xs (k * n) (k * n + n)"
  by (simp add: split_batches_def range_step_def)

lemma length_split_batches: "length (split_batches n xs) = (length xs + n - 1) div n"
  by (simp add: split_batches_def range_step_def)

lemma split_batches_bounds:
  assumes "0 < n" "b \<in> set (split_batches n xs)"
  shows "length b \<le> n \<and> b \<noteq> []"
proof -
  from assms(2) obtain k where k: "k < (length xs + n - 1) div n" and b: "b = slice xs (k * n) (k * n + n)"
    by (auto simp: split_batches_def range_step_def)
  from k have "Suc k \<le> (length xs + n - 1) div n" by simp
  then have "Suc k * n \<le> length xs + n - 1" using assms(1) by (simp add: less_eq_div_iff_mult_less_eq)
  then have "k * n < length xs" using assms(1) by simp
  then show ?thesis using b assms(1) by (simp add: slice_def)
qed

lemma sizes_120:
  assumes "length xs = 120"
  shows "map length (split_batches 50 xs) = [50, 50, 20]"
proof -
  have 1: "xs \<noteq> []" using assms by auto
  have 2: "drop 50 xs \<noteq> []" using assms by auto
  have 3: "drop 100 xs \<noteq> []" using assms by auto
  have 4: "drop 150 xs = []" using assms by auto
  show ?thesis
    by (simp add: split_batches_rec[OF _ 1] split_batches_rec[OF _ 2] split_batches_rec[OF _ 3] 4 split_batches_Nil assms)
qed

section \<open>Appending rows\<close>

lemma files_append_row:
  "files (append_row out_dir ts s kv) p =
     (if csv_path out_dir (fst kv) = p
      then Some ((case files s p of None \<Rightarrow> [csv_headers] | Some c \<Rightarrow> c) @ [csv_row (fst kv) ts (snd kv)])
      else files s p)"
  by (auto simp: append_row_def csv_path_def Let_def split: option.splits)

lemma append_row_frame:
  "clock (append_row out_dir ts s kv) = clock s"
  "requests (append_row out_dir ts s kv) = requests s"
  "trace (append_row out_dir ts s kv) = trace s"
  "call_count (append_row out_dir ts s kv) = call_count s"
  by (simp_all add: append_row_def Let_def)

lemma append_ops_Cons:
  "append_ops out_dir (op # ops) s = append_ops out_dir ops (append_row out_dir (fst op) s (snd op))"
  by (simp add: append_ops_def)

lemma append_ops_Nil: "append_ops out_dir [] s = s"
  by (simp add: append_ops_def)

lemma append_ops_frame:
  "clock (append_ops out_dir ops s) = clock s \<and> requests (append_ops out_dir ops s) = requests s
   \<and> trace (append_ops out_dir ops s) = trace s \<and> call_count (append_ops out_dir ops s) = call_count s"
  by (induction ops arbitrary: s) (simp_all add: append_ops_Nil append_ops_Cons append_row_frame)

lemma files_append_ops:
  "files (append_ops out_dir ops s) p =
     (if rows_for out_dir p ops = [] then files s p
      else Some ((case files s p of None \<Rightarrow> [csv_headers] | Some c \<Rightarrow> c) @ rows_for out_dir p ops))"
proof (induction ops arbitrary: s)
  case Nil
  then show ?case by (simp add: append_ops_Nil rows_for_def)
next
  case (Cons op ops)
  show ?case
    by (simp add: append_ops_Cons Cons.IH files_append_row) (simp add: rows_for_def)
qed

lemma append_rows_to_csv_ops:
  "append_rows_to_csv out_dir snaps s = append_ops out_dir (map (\<lambda>kv. (clock s, kv)) snaps) s"
  by (simp add: append_rows_to_csv_def append_ops_def foldl_map)

lemma header_not_data: "csv_row vid ts rec \<noteq> csv_headers"
  by (simp add: csv_row_def csv_headers_def)

lemma header_notin_rows_for: "csv_headers \<notin> set (rows_for out_dir p ops)"
  using header_not_data by (auto simp: rows_for_def dest: sym)

lemma length_rows_for:
  "length (rows_for out_dir p ops) = length (filter (\<lambda>op. csv_path out_dir (fst (snd op)) = p) ops)"
  by (simp add: rows_for_def)

subsection \<open>The dict of a response\<close>

lemma keys_foldl_update:
  "fst ` set (foldl (\<lambda>out it. AList.update (item_id it) (snapshot_of it) out) acc its)
     = fst ` set acc \<union> item_id ` set its"
  by (induction its arbitrary: acc) (auto simp: dom_update)

lemma distinct_foldl_update:
  "distinct (map fst acc) \<Longrightarrow>
   distinct (map fst (foldl (\<lambda>out it. AList.update (item_id it) (snapshot_of it) out) acc its))"
  by (induction its arbitrary: acc) (simp_all add: distinct_update)

lemma keys_collect_items: "fst ` set (collect_items its) = item_id ` set its"
  by (simp add: collect_items_def keys_foldl_update)

lemma distinct_collect_items: "distinct (map fst (collect_items its))"
  by (simp add: collect_items_def distinct_foldl_update)

lemma filter_key_distinct:
  "distinct (map fst al) \<Longrightarrow>
   filter (\<lambda>kv. fst kv = k) al = (case map_of al k of None \<Rightarrow> [] | Some v \<Rightarrow> [(k, v)])"
proof (induction al)
  case Nil
  then show ?case by simp
next
  case (Cons a al)
  obtain k' v' where a: "a = (k', v')" by (cases a)
  show ?case
  proof (cases "k' = k")
    case True
    then have "k \<notin> fst ` set al" using Cons.prems a by auto
    then have "filter (\<lambda>kv. fst kv = k) al = []" by (auto simp: filter_empty_conv)
    then show ?thesis using True a by simp
  next
    case False
    then show ?thesis using Cons a by simp
  qed
qed

subsection \<open>The rows of one video\<close>

lemma rows_of_append: "rows_of vid (xs @ ys) = rows_of vid xs @ rows_of vid ys"
  by (simp add: rows_of_def)

lemma rows_of_Nil: "rows_of vid [] = []"
  by (simp add: rows_of_def)

lemma rows_of_header: "rows_of vid [csv_headers] = []"
  by (simp add: rows_of_def csv_headers_def)

lemma row_video_csv_row: "row_video (csv_row v ts rec) = Some v"
  by (simp add: csv_row_def)

lemma row_ts_csv_row: "row_ts (csv_row v ts rec) = Some ts"
  by (simp add: csv_row_def)

lemma rows_of_rows_for:
  "rows_of vid (rows_for out_dir p ops)
     = map (\<lambda>op. csv_row vid (fst op) (snd (snd op)))
         (filter (\<lambda>op. fst (snd op) = vid \<and> csv_path out_dir vid = p) ops)"
  by (induction ops) (auto simp: rows_of_def rows_for_def row_video_csv_row)

lemma file_rows_append_ops:
  "file_rows (append_ops out_dir ops s) p
     = (if rows_for out_dir p ops = [] then file_rows s p
        else (case files s p of None \<Rightarrow> [csv_headers] | Some c \<Rightarrow> c) @ rows_for out_dir p ops)"
  by (simp add: file_rows_def files_append_ops)

lemma rows_of_append_ops:
  "rows_of vid (file_rows (append_ops out_dir ops s) p)
     = rows_of vid (file_rows s p) @ rows_of vid (rows_for out_dir p ops)"
proof (cases "rows_for out_dir p ops = []")
  case True
  then show ?thesis by (simp add: file_rows_append_ops rows_of_def)
next
  case False
  have "rows_of vid (case files s p of None \<Rightarrow> [csv_headers] | Some c \<Rightarrow> c) = rows_of vid (file_rows s p)"
    by (cases "files s p") (simp_all add: file_rows_def rows_of_header rows_of_Nil)
  then show ?thesis using False by (simp add: file_rows_append_ops rows_of_append)
qed

lemma rows_of_append_rows_to_csv:
  assumes "distinct (map fst snaps)"
  shows "rows_of vid (file_rows (append_rows_to_csv out_dir snaps s) p)
     = rows_of vid (file_rows s p)
       @ (case map_of snaps vid of
            None \<Rightarrow> []
          | Some rec \<Rightarrow> if csv_path out_dir vid = p then [csv_row vid (clock s) rec] else [])"
proof -
  have "filter (\<lambda>op. fst (snd op) = vid \<and> csv_path out_dir vid = p) (map (\<lambda>kv. (clock s, kv)) snaps)
      = (if csv_path out_dir vid = p then map (\<lambda>kv. (clock s, kv)) (filter (\<lambda>kv. fst kv = vid) snaps) else [])"
    by (simp add: filter_map o_def)
  then show ?thesis
    by (simp add: append_rows_to_csv_ops rows_of_append_ops rows_of_rows_for filter_key_distinct[OF assms]
        split: option.splits)
qed

lemma map_of_None_keys: "map_of al k = None \<longleftrightarrow> k \<notin> fst ` set al"
  by (simp add: map_of_eq_None_iff)

section \<open>The inner loop\<close>

text \<open>
  The loops are unfolded by hand: one lemma for each way through the body of the
  inner loop, and a rule that proves a property of the loop from these four cases.
\<close>

declare fetch_loop.simps [simp del]

declare poll_rounds.simps [simp del]

lemma requested_fields:
  "clock (requested service batch attempt s) = clock s + real (latency (service (requests s) batch)) / 1000000"
  "requests (requested service batch attempt s) = Suc (requests s)"
  "files (requested service batch attempt s) = files s"
  "dirs (requested service batch attempt s) = dirs s"
  "call_count (requested service batch attempt s) = call_count s"
  "trace (requested service batch attempt s) = trace s @ [EvFetch (clock s) attempt batch]"
  by (simp_all add: requested_def videos_list_stats_def log_event_def Let_def split: outcome.splits)

lemma slept_fields:
  "clock (slept secs s) = clock s + secs"
  "requests (slept secs s) = requests s"
  "files (slept secs s) = files s"
  "dirs (slept secs s) = dirs s"
  "call_count (slept secs s) = call_count s"
  "trace (slept secs s) = trace s @ [EvSleep secs]"
  by (simp_all add: slept_def)

lemma append_rows_to_csv_frame:
  "clock (append_rows_to_csv out_dir snaps s) = clock s"
  "requests (append_rows_to_csv out_dir snaps s) = requests s"
  "trace (append_rows_to_csv out_dir snaps s) = trace s"
  "call_count (append_rows_to_csv out_dir snaps s) = call_count s"
  by (simp_all add: append_rows_to_csv_ops append_ops_frame)

lemma polled_fields:
  "clock (polled out_dir ts_now batch snaps s) = clock s"
  "requests (polled out_dir ts_now batch snaps s) = requests s"
  "files (polled out_dir ts_now batch snaps s) = files (append_rows_to_csv out_dir snaps s)"
  "call_count (polled out_dir ts_now batch snaps s) = Suc (call_count s)"
  "trace (polled out_dir ts_now batch snaps s) = trace s @ [EvPolled ts_now (length batch) (Suc (call_count s))]"
  by (simp_all add: polled_def Let_def log_event_def append_rows_to_csv_frame)

lemma time_sleep_nonneg: "0 \<le> secs \<Longrightarrow> time_sleep secs s = Inr (slept secs s)"
  by (simp add: time_sleep_def slept_def)

lemma time_sleep_neg: "secs < 0 \<Longrightarrow> time_sleep secs s = Inl ValueError"
  by (simp add: time_sleep_def)

lemma videos_list_stats_Response:
  "outcome (service (requests s) batch) = Response its \<Longrightarrow>
   videos_list_stats service batch (log_event (EvFetch (clock s) attempt batch) s)
     = (Inr (collect_items its), requested service batch attempt s)"
  by (simp add: requested_def videos_list_stats_def log_event_def Let_def)

lemma videos_list_stats_Raises:
  "outcome (service (requests s) batch) = Raises e \<Longrightarrow>
   videos_list_stats service batch (log_event (EvFetch (clock s) attempt batch) s)
     = (Inl e, requested service batch attempt s)"
  by (simp add: requested_def videos_list_stats_def log_event_def Let_def)

lemma fetch_loop_Response:
  "outcome (service (requests s) batch) = Response its \<Longrightarrow>
   fetch_loop service out_dir ts_now batch attempt s
     = (None, polled out_dir ts_now batch (collect_items its) (requested service batch attempt s))"
  by (subst fetch_loop.simps) (simp add: videos_list_stats_Response polled_def Let_def)

lemma backoff_nonneg: "0 \<le> backoff_initial * 2 ^ n"
  by (simp add: backoff_initial_def)

lemma fetch_loop_retry:
  "outcome (service (requests s) batch) = Raises (HttpError st) \<Longrightarrow> attempt < max_retries \<Longrightarrow>
   fetch_loop service out_dir ts_now batch attempt s
     = fetch_loop service out_dir ts_now batch (Suc attempt)
         (slept (backoff_initial * 2 ^ attempt) (requested service batch attempt s))"
  by (subst fetch_loop.simps) (simp add: videos_list_stats_Raises time_sleep_nonneg backoff_nonneg)

lemma fetch_loop_give_up:
  "outcome (service (requests s) batch) = Raises (HttpError st) \<Longrightarrow> max_retries \<le> attempt \<Longrightarrow>
   fetch_loop service out_dir ts_now batch attempt s
     = (None, log_event (EvSkipped batch) (requested service batch attempt s))"
  by (subst fetch_loop.simps) (simp add: videos_list_stats_Raises)

lemma fetch_loop_uncaught:
  "outcome (service (requests s) batch) = Raises e \<Longrightarrow> \<forall>st. e \<noteq> HttpError st \<Longrightarrow>
   fetch_loop service out_dir ts_now batch attempt s = (Some e, requested service batch attempt s)"
  by (subst fetch_loop.simps) (simp add: videos_list_stats_Raises split: py_error.splits)

lemma fetch_loop_rule:
  assumes resp: "\<And>attempt s its. outcome (service (requests s) batch) = Response its \<Longrightarrow>
            P attempt s (None, polled out_dir ts_now batch (collect_items its) (requested service batch attempt s))"
    and give_up: "\<And>attempt s st. outcome (service (requests s) batch) = Raises (HttpError st) \<Longrightarrow>
            max_retries \<le> attempt \<Longrightarrow>
            P attempt s (None, log_event (EvSkipped batch) (requested service batch attempt s))"
    and uncaught: "\<And>attempt s e. outcome (service (requests s) batch) = Raises e \<Longrightarrow>
            \<forall>st. e \<noteq> HttpError st \<Longrightarrow> P attempt s (Some e, requested service batch attempt s)"
    and retry: "\<And>attempt s st r. outcome (service (requests s) batch) = Raises (HttpError st) \<Longrightarrow>
            attempt < max_retries \<Longrightarrow>
            P (Suc attempt) (slept (backoff_initial * 2 ^ attempt) (requested service batch attempt s)) r \<Longrightarrow>
            P attempt s r"
  shows "P attempt s (fetch_loop service out_dir ts_now batch attempt s)"
proof (induction n \<equiv> "max_retries - attempt" arbitrary: attempt s)
  case 0
  show ?case
  proof (cases "outcome (service (requests s) batch)")
    case (Response its)
    then show ?thesis by (simp add: fetch_loop_Response resp)
  next
    case (Raises e)
    show ?thesis
    proof (cases e)
      case (HttpError st)
      then show ?thesis using Raises 0 by (simp add: fetch_loop_give_up give_up)
    qed (use Raises in \<open>simp_all add: fetch_loop_uncaught uncaught\<close>)
  qed
next
  case (Suc n)
  show ?case
  proof (cases "outcome (service (requests s) batch)")
    case (Response its)
    then show ?thesis by (simp add: fetch_loop_Response resp)
  next
    case (Raises e)
    show ?thesis
    proof (cases e)
      case (HttpError st)
      have lt: "attempt < max_retries" using Suc.hyps(2) by simp
      have "n = max_retries - Suc attempt" using Suc.hyps(2) by simp
      then have "P (Suc attempt) (slept (backoff_initial * 2 ^ attempt) (requested service batch attempt s))
          (fetch_loop service out_dir ts_now batch (Suc attempt)
             (slept (backoff_initial * 2 ^ attempt) (requested service batch attempt s)))"
        by (rule Suc.hyps(1))
      then show ?thesis
        using Raises HttpError lt retry by (simp add: fetch_loop_retry)
    qed (use Raises in \<open>simp_all add: fetch_loop_uncaught uncaught\<close>)
  qed
qed

lemma sleeps_append: "sleeps (xs @ ys) = sleeps xs @ sleeps ys"
  by (induction xs rule: sleeps.induct) simp_all

lemma fetches_append: "fetches (xs @ ys) = fetches xs @ fetches ys"
  by (induction xs rule: fetches.induct) simp_all

lemma fetch_loop_always_failing:
  assumes fail: "\<And>n ids. \<exists>st. outcome (service n ids) = Raises (HttpError st)"
    and le: "attempt \<le> max_retries"
  shows "fst (fetch_loop service out_dir ts_now batch attempt s) = None
     \<and> requests (snd (fetch_loop service out_dir ts_now batch attempt s))
         = requests s + (Suc max_retries - attempt)
     \<and> files (snd (fetch_loop service out_dir ts_now batch attempt s)) = files s
     \<and> sleeps (trace (snd (fetch_loop service out_dir ts_now batch attempt s)))
         = sleeps (trace s) @ map (\<lambda>k. backoff_initial * 2 ^ k) [attempt..<max_retries]
     \<and> map (\<lambda>f. fst (snd f)) (fetches (trace (snd (fetch_loop service out_dir ts_now batch attempt s))))
         = map (\<lambda>f. fst (snd f)) (fetches (trace s)) @ [attempt..<Suc max_retries]
     \<and> last (trace (snd (fetch_loop service out_dir ts_now batch attempt s))) = EvSkipped batch"
proof -
  define P :: "nat \<Rightarrow> state \<Rightarrow> py_error option \<times> state \<Rightarrow> bool" where
    "P = (\<lambda>attempt s r. attempt \<le> max_retries \<longrightarrow>
       fst r = None
       \<and> requests (snd r) = requests s + (Suc max_retries - attempt)
       \<and> files (snd r) = files s
       \<and> sleeps (trace (snd r)) = sleeps (trace s) @ map (\<lambda>k. backoff_initial * 2 ^ k) [attempt..<max_retries]
       \<and> map (\<lambda>f. fst (snd f)) (fetches (trace (snd r)))
           = map (\<lambda>f. fst (snd f)) (fetches (trace s)) @ [attempt..<Suc max_retries]
       \<and> last (trace (snd r)) = EvSkipped batch)"
  have "P attempt s (fetch_loop service out_dir ts_now batch attempt s)"
  proof (rule fetch_loop_rule)
    fix attempt and s :: state and its
    assume "outcome (service (requests s) batch) = Response its"
    then show "P attempt s (None, polled out_dir ts_now batch (collect_items its) (requested service batch attempt s))"
      using fail[of "requests s" batch] by simp
  next
    fix attempt and s :: state and st
    assume "outcome (service (requests s) batch) = Raises (HttpError st)" "max_retries \<le> attempt"
    then show "P attempt s (None, log_event (EvSkipped batch) (requested service batch attempt s))"
      unfolding P_def by (simp add: log_event_def requested_fields sleeps_append fetches_append)
  next
    fix attempt and s :: state and e
    assume "outcome (service (requests s) batch) = Raises e" "\<forall>st. e \<noteq> HttpError st"
    then show "P attempt s (Some e, requested service batch attempt s)"
      using fail[of "requests s" batch] by auto
  next
    fix attempt and s :: state and st r
    assume a: "outcome (service (requests s) batch) = Raises (HttpError st)" "attempt < max_retries"
      and ih: "P (Suc attempt) (slept (backoff_initial * 2 ^ attempt) (requested service batch attempt s)) r"
    have u1: "[attempt..<max_retries] = attempt # [Suc attempt..<max_retries]"
      using a(2) by (rule upt_conv_Cons)
    have u2: "[attempt..<Suc max_retries] = attempt # [Suc attempt..<Suc max_retries]"
      using a(2) by (intro upt_conv_Cons) simp
    show "P attempt s r"
      using ih a(2) unfolding P_def u1 u2
      by (simp add: slept_fields requested_fields sleeps_append fetches_append Suc_diff_Suc del: upt_Suc)
  qed
  then show ?thesis using le by (simp add: P_def)
qed

subsection \<open>The rows that a batch adds\<close>

lemma file_rows_cong: "files a = files b \<Longrightarrow> file_rows a p = file_rows b p"
  by (simp add: file_rows_def)

lemma file_rows_polled:
  "file_rows (polled out_dir ts_now batch snaps s1) p = file_rows (append_rows_to_csv out_dir snaps s1) p"
  by (rule file_rows_cong) (simp add: polled_fields)

lemma file_rows_requested: "file_rows (requested service batch attempt s) p = file_rows s p"
  by (rule file_rows_cong) (simp add: requested_fields)

lemma videos_list_stats_fst:
  "outcome (service (requests s) batch) = Response its \<Longrightarrow>
   fst (videos_list_stats service batch s) = Inr (collect_items its)"
  by (simp add: videos_list_stats_def Let_def)

lemma rows_of_fetch_loop_Response:
  assumes "outcome (service (requests s) batch) = Response its"
  shows "rows_of vid (file_rows (snd (fetch_loop service out_dir ts_now batch attempt s)) p)
     = rows_of vid (file_rows s p)
       @ (case map_of (collect_items its) vid of
            None \<Rightarrow> []
          | Some rec \<Rightarrow>
              if csv_path out_dir vid = p
              then [csv_row vid (clock (requested service batch attempt s)) rec] else [])"
  by (simp add: fetch_loop_Response[where service=service and s=s and batch=batch and its=its, OF assms] file_rows_polled
      rows_of_append_rows_to_csv[OF distinct_collect_items] file_rows_requested)

lemma map_of_collect_items_None:
  "map_of (collect_items its) vid = None \<longleftrightarrow> vid \<notin> item_id ` set its"
  by (simp add: map_of_None_keys keys_collect_items)

subsection \<open>A service that always fails\<close>

lemma backoff_schedule: "map (\<lambda>k. backoff_initial * 2 ^ k) [0..<max_retries] = [2, 4, 8, 16, 32, 64]"
  by (simp add: backoff_initial_def max_retries_def upt_rec)

lemma attempts_upto: "[0..<Suc max_retries] = [0, 1, 2, 3, 4, 5, 6]"
  by (simp add: max_retries_def upt_rec)

lemma fetch_loop_all_fail:
  assumes fail: "\<And>n ids. \<exists>st. outcome (service n ids) = Raises (HttpError st)"
  shows "fst (fetch_loop service out_dir ts_now batch 0 s) = None"
    and "requests (snd (fetch_loop service out_dir ts_now batch 0 s)) = requests s + 7"
    and "map (\<lambda>f. fst (snd f)) (fetches (trace (snd (fetch_loop service out_dir ts_now batch 0 s))))
         = map (\<lambda>f. fst (snd f)) (fetches (trace s)) @ [0, 1, 2, 3, 4, 5, 6]"
    and "sleeps (trace (snd (fetch_loop service out_dir ts_now batch 0 s)))
         = sleeps (trace s) @ [2, 4, 8, 16, 32, 64]"
    and "last (trace (snd (fetch_loop service out_dir ts_now batch 0 s))) = EvSkipped batch"
    and "files (snd (fetch_loop service out_dir ts_now batch 0 s)) = files s"
proof -
  have le: "0 \<le> max_retries" by simp
  note r = fetch_loop_always_failing [where service = service and attempt = 0 and s = s
      and out_dir = out_dir and ts_now = ts_now and batch = batch, OF fail le,
      unfolded backoff_schedule attempts_upto]
  show "fst (fetch_loop service out_dir ts_now batch 0 s) = None" using r by blast
  show "requests (snd (fetch_loop service out_dir ts_now batch 0 s)) = requests s + 7"
    using r by (simp add: max_retries_def)
  show "map (\<lambda>f. fst (snd f)) (fetches (trace (snd (fetch_loop service out_dir ts_now batch 0 s))))
         = map (\<lambda>f. fst (snd f)) (fetches (trace s)) @ [0, 1, 2, 3, 4, 5, 6]"
    using r by blast
  show "sleeps (trace (snd (fetch_loop service out_dir ts_now batch 0 s)))
         = sleeps (trace s) @ [2, 4, 8, 16, 32, 64]"
    using r by blast
  show "last (trace (snd (fetch_loop service out_dir ts_now batch 0 s))) = EvSkipped batch"
    using r by blast
  show "files (snd (fetch_loop service out_dir ts_now batch 0 s)) = files s"
    using r by blast
qed

lemma const_service_fails:
  "\<exists>st'. outcome (const_service \<lparr>outcome = Raises (HttpError st), latency = l\<rparr> n ids) = Raises (HttpError st')"
  by (simp add: const_service_def)

subsection \<open>The order of requests and sleeps\<close>

lemma fetch_loop_fail_steps:
  assumes fail: "\<And>n ids. \<exists>st. outcome (service n ids) = Raises (HttpError st)"
    and le: "attempt \<le> max_retries"
  shows "map step_of (trace (snd (fetch_loop service out_dir ts_now batch attempt s)))
     = map step_of (trace s)
       @ concat (map (\<lambda>k. [Request k batch, Sleep (backoff_initial * 2 ^ k)]) [attempt..<max_retries])
       @ [Request max_retries batch, Skipped batch]"
proof -
  define P :: "nat \<Rightarrow> state \<Rightarrow> py_error option \<times> state \<Rightarrow> bool" where
    "P = (\<lambda>attempt s r. attempt \<le> max_retries \<longrightarrow>
       map step_of (trace (snd r))
         = map step_of (trace s)
           @ concat (map (\<lambda>k. [Request k batch, Sleep (backoff_initial * 2 ^ k)]) [attempt..<max_retries])
           @ [Request max_retries batch, Skipped batch])"
  have "P attempt s (fetch_loop service out_dir ts_now batch attempt s)"
  proof (rule fetch_loop_rule)
    fix attempt and s :: state and its
    assume "outcome (service (requests s) batch) = Response its"
    then show "P attempt s (None, polled out_dir ts_now batch (collect_items its) (requested service batch attempt s))"
      using fail[of "requests s" batch] by simp
  next
    fix attempt and s :: state and st
    assume "outcome (service (requests s) batch) = Raises (HttpError st)" "max_retries \<le> attempt"
    then show "P attempt s (None, log_event (EvSkipped batch) (requested service batch attempt s))"
      unfolding P_def by (simp add: log_event_def requested_fields)
  next
    fix attempt and s :: state and e
    assume "outcome (service (requests s) batch) = Raises e" "\<forall>st. e \<noteq> HttpError st"
    then show "P attempt s (Some e, requested service batch attempt s)"
      using fail[of "requests s" batch] by auto
  next
    fix attempt and s :: state and st r
    assume a: "outcome (service (requests s) batch) = Raises (HttpError st)" "attempt < max_retries"
      and ih: "P (Suc attempt) (slept (backoff_initial * 2 ^ attempt) (requested service batch attempt s)) r"
    have u1: "[attempt..<max_retries] = attempt # [Suc attempt..<max_retries]"
      using a(2) by (rule upt_conv_Cons)
    show "P attempt s r"
      using ih a(2) unfolding P_def u1
      by (simp add: slept_fields requested_fields)
  qed
  then show ?thesis using le by (simp add: P_def)
qed

lemma retry_steps_schedule:
  "concat (map (\<lambda>k. [Request k batch, Sleep (backoff_initial * 2 ^ k)]) [0..<max_retries])
       @ [Request max_retries batch, Skipped batch]
   = [Request 0 batch, Sleep 2, Request 1 batch, Sleep 4, Request 2 batch, Sleep 8,
      Request 3 batch, Sleep 16, Request 4 batch, Sleep 32, Request 5 batch, Sleep 64,
      Request 6 batch, Skipped batch]"
  by (simp add: backoff_initial_def max_retries_def upt_rec)

lemma fetch_loop_all_fail_steps:
  assumes fail: "\<And>n ids. \<exists>st. outcome (service n ids) = Raises (HttpError st)"
  shows "map step_of (trace (snd (fetch_loop service out_dir ts_now batch 0 s)))
     = map step_of (trace s)
       @ [Request 0 batch, Sleep 2, Request 1 batch, Sleep 4, Request 2 batch, Sleep 8,
          Request 3 batch, Sleep 16, Request 4 batch, Sleep 32, Request 5 batch, Sleep 64,
          Request 6 batch, Skipped batch]"
proof -
  have le: "0 \<le> max_retries" by simp
  show ?thesis
    using fetch_loop_fail_steps [where service = service and attempt = 0 and s = s
      and out_dir = out_dir and ts_now = ts_now and batch = batch, OF fail le]
    unfolding retry_steps_schedule .
qed

lemma transient_503: "transient 503" and transient_429: "transient 429" and not_transient_403: "\<not> transient 403"
  by (simp_all add: transient_def)

section \<open>The deadline\<close>

lemma first_attempts_before_append:
  "first_attempts_before end_t (evs @ evs')
     = (first_attempts_before end_t evs \<and> first_attempts_before end_t evs')"
  by (auto simp: first_attempts_before_def fetches_append)

lemma first_attempts_before_Cons:
  "first_attempts_before end_t (e # evs)
     = ((case e of EvFetch t a b \<Rightarrow> a = 0 \<longrightarrow> t < end_t | _ \<Rightarrow> True)
        \<and> first_attempts_before end_t evs)"
  by (cases e) (auto simp: first_attempts_before_def)

lemma first_attempts_before_Nil: "first_attempts_before end_t []"
  by (simp add: first_attempts_before_def)

lemma fetch_loop_first_attempts:
  assumes "first_attempts_before end_t (trace s)" and "attempt = 0 \<longrightarrow> clock s < end_t"
  shows "first_attempts_before end_t (trace (snd (fetch_loop service out_dir ts_now batch attempt s)))"
proof -
  define P :: "nat \<Rightarrow> state \<Rightarrow> py_error option \<times> state \<Rightarrow> bool" where
    "P = (\<lambda>attempt s r. first_attempts_before end_t (trace s) \<and> (attempt = 0 \<longrightarrow> clock s < end_t)
            \<longrightarrow> first_attempts_before end_t (trace (snd r)))"
  have "P attempt s (fetch_loop service out_dir ts_now batch attempt s)"
  proof (rule fetch_loop_rule)
    fix attempt and s :: state and its
    show "P attempt s (None, polled out_dir ts_now batch (collect_items its) (requested service batch attempt s))"
      unfolding P_def
      by (simp add: polled_fields requested_fields first_attempts_before_append first_attempts_before_Cons first_attempts_before_Nil)
  next
    fix attempt and s :: state and st
    show "P attempt s (None, log_event (EvSkipped batch) (requested service batch attempt s))"
      unfolding P_def
      by (simp add: log_event_def requested_fields first_attempts_before_append first_attempts_before_Cons first_attempts_before_Nil)
  next
    fix attempt and s :: state and e
    show "P attempt s (Some e, requested service batch attempt s)"
      unfolding P_def by (simp add: requested_fields first_attempts_before_append first_attempts_before_Cons first_attempts_before_Nil)
  next
    fix attempt and s :: state and st r
    assume "P (Suc attempt) (slept (backoff_initial * 2 ^ attempt) (requested service batch attempt s)) r"
    then show "P attempt s r"
      unfolding P_def by (simp add: slept_fields requested_fields first_attempts_before_append first_attempts_before_Cons first_attempts_before_Nil)
  qed
  then show ?thesis using assms by (simp add: P_def)
qed

lemma poll_batches_first_attempts:
  "first_attempts_before end_t (trace s) \<Longrightarrow>
   first_attempts_before end_t (trace (snd (poll_batches service out_dir end_t ts_now batches s)))"
proof (induction batches arbitrary: s)
  case Nil
  then show ?case by simp
next
  case (Cons batch rest)
  show ?case
  proof (cases "end_t \<le> clock s")
    case True
    then show ?thesis using Cons.prems by simp
  next
    case False
    obtain e s1 where r: "fetch_loop service out_dir ts_now batch 0 s = (e, s1)"
      by (cases "fetch_loop service out_dir ts_now batch 0 s")
    have "first_attempts_before end_t (trace (snd (fetch_loop service out_dir ts_now batch 0 s)))"
      using Cons.prems False by (intro fetch_loop_first_attempts) simp_all
    then have s1: "first_attempts_before end_t (trace s1)" using r by simp
    show ?thesis
      using False r s1 Cons.IH[OF s1] by (cases e) simp_all
  qed
qed

lemma poll_batches_past_deadline:
  "end_t \<le> clock s \<Longrightarrow> poll_batches service out_dir end_t ts_now batches s = (None, s)"
  by (cases batches) simp_all

lemma poll_rounds_past_deadline:
  "end_t \<le> clock s \<Longrightarrow> poll_rounds fuel service out_dir interval end_t batches s = (Completed, s)"
  by (subst poll_rounds.simps) simp

lemma poll_rounds_first_attempts:
  "first_attempts_before end_t (trace s) \<Longrightarrow>
   first_attempts_before end_t (trace (snd (poll_rounds fuel service out_dir interval end_t batches s)))"
proof (induction fuel arbitrary: s)
  case 0
  then show ?case by (subst poll_rounds.simps) simp
next
  case (Suc fuel)
  obtain e s1 where r: "poll_batches service out_dir end_t (clock s) batches s = (e, s1)"
    by (cases "poll_batches service out_dir end_t (clock s) batches s")
  have "first_attempts_before end_t (trace (snd (poll_batches service out_dir end_t (clock s) batches s)))"
    using Suc.prems by (rule poll_batches_first_attempts)
  then have s1: "first_attempts_before end_t (trace s1)" using r by simp
  have s2: "first_attempts_before end_t (trace (slept secs s1))" for secs
    using s1 by (simp add: slept_fields first_attempts_before_append first_attempts_before_Cons first_attempts_before_Nil)
  show ?case
    using Suc.prems r s1 Suc.IH[OF s2]
    by (subst poll_rounds.simps) (auto simp: Let_def time_sleep_def slept_def split: option.splits)
qed

lemma run_polling_loop_first_attempts:
  assumes "first_attempts_before (clock s + t0_hours * 3600) (trace s)"
  shows "first_attempts_before (clock s + t0_hours * 3600)
     (trace (snd (run_polling_loop fuel service video_ids out_dir interval t0_hours max_calls s)))"
proof -
  let ?s0 = "ensure_out_dirs out_dir video_ids s"
  have c: "clock ?s0 = clock s" and t: "trace ?s0 = trace s"
    by (simp_all add: ensure_out_dirs_def)
  have "first_attempts_before (clock s + t0_hours * 3600) (trace (?s0\<lparr>call_count := 0\<rparr>))"
    using assms t by simp
  then have "first_attempts_before (clock s + t0_hours * 3600)
     (trace (snd (poll_rounds fuel service out_dir interval (clock s + t0_hours * 3600)
        (vid_batches video_ids) (?s0\<lparr>call_count := 0\<rparr>))))"
    by (rule poll_rounds_first_attempts)
  then show ?thesis
    using assms t c by (auto simp: run_polling_loop_def Let_def split: sum.splits)
qed

section \<open>Files only grow\<close>

lemma file_rows_append_rows_grow:
  "\<exists>new. file_rows (append_rows_to_csv out_dir snaps s) p = file_rows s p @ new
       \<and> (\<forall>r \<in> set new. r = csv_headers \<or> row_ts r = Some (clock s))"
proof (cases "rows_for out_dir p (map (\<lambda>kv. (clock s, kv)) snaps) = []")
  case True
  then show ?thesis by (simp add: append_rows_to_csv_ops file_rows_append_ops)
next
  case False
  have ts: "\<forall>r \<in> set (rows_for out_dir p (map (\<lambda>kv. (clock s, kv)) snaps)). row_ts r = Some (clock s)"
    by (auto simp: rows_for_def row_ts_csv_row)
  show ?thesis
  proof (cases "files s p")
    case None
    then have "file_rows (append_rows_to_csv out_dir snaps s) p
        = file_rows s p @ (csv_headers # rows_for out_dir p (map (\<lambda>kv. (clock s, kv)) snaps))"
      using False by (simp add: append_rows_to_csv_ops files_append_ops file_rows_def)
    then show ?thesis using ts by (intro exI conjI) (assumption, auto)
  next
    case (Some c)
    then have "file_rows (append_rows_to_csv out_dir snaps s) p
        = file_rows s p @ rows_for out_dir p (map (\<lambda>kv. (clock s, kv)) snaps)"
      using False by (simp add: append_rows_to_csv_ops files_append_ops file_rows_def)
    then show ?thesis using ts by (intro exI conjI) (assumption, auto)
  qed
qed

lemma fetch_loop_rows_grow:
  "\<exists>new. file_rows (snd (fetch_loop service out_dir ts_now batch attempt s)) p = file_rows s p @ new
       \<and> (\<forall>r \<in> set new. r = csv_headers
             \<or> row_ts r = Some (clock (snd (fetch_loop service out_dir ts_now batch attempt s))))"
proof -
  define P :: "nat \<Rightarrow> state \<Rightarrow> py_error option \<times> state \<Rightarrow> bool" where
    "P = (\<lambda>attempt s r. \<exists>new. file_rows (snd r) p = file_rows s p @ new
            \<and> (\<forall>r' \<in> set new. r' = csv_headers \<or> row_ts r' = Some (clock (snd r))))"
  have "P attempt s (fetch_loop service out_dir ts_now batch attempt s)"
  proof (rule fetch_loop_rule)
    fix attempt and s :: state and its
    show "P attempt s (None, polled out_dir ts_now batch (collect_items its) (requested service batch attempt s))"
      unfolding P_def
      using file_rows_append_rows_grow [of out_dir "collect_items its" "requested service batch attempt s" p]
      by (simp add: file_rows_polled file_rows_requested polled_fields)
  next
    fix attempt and s :: state and st
    have "file_rows (log_event (EvSkipped batch) (requested service batch attempt s)) p = file_rows s p"
      by (rule file_rows_cong) (simp add: log_event_def requested_fields)
    then show "P attempt s (None, log_event (EvSkipped batch) (requested service batch attempt s))"
      unfolding P_def by simp
  next
    fix attempt and s :: state and e
    show "P attempt s (Some e, requested service batch attempt s)"
      unfolding P_def by (simp add: file_rows_requested)
  next
    fix attempt and s :: state and st r
    have "file_rows (slept (backoff_initial * 2 ^ attempt) (requested service batch attempt s)) p = file_rows s p"
      by (rule file_rows_cong) (simp add: slept_fields requested_fields)
    moreover assume "P (Suc attempt) (slept (backoff_initial * 2 ^ attempt) (requested service batch attempt s)) r"
    ultimately show "P attempt s r"
      unfolding P_def by simp
  qed
  then show ?thesis by (simp add: P_def)
qed

lemma new_rows_eq: "file_rows s' p = file_rows s p @ new \<Longrightarrow> new_rows s s' p = new"
  by (simp add: new_rows_def)

section \<open>Runs on concrete input\<close>

lemma batches_51: "vid_batches (replicate 50 a @ [b]) = [replicate 50 a, [b]]"
proof -
  have 1: "replicate 50 a @ [b] \<noteq> []" by simp
  have 2: "[b] \<noteq> []" by simp
  have p: "(0::nat) < 50" by simp
  show ?thesis
    unfolding vid_batches_def MAX_BATCH_def
    by (simp add: split_batches_rec[OF p 1] split_batches_rec[OF p 2] split_batches_Nil)
qed

lemma batches_single: "vid_batches [v] = [[v]]"
proof -
  have 2: "[v] \<noteq> []" by simp
  have p: "(0::nat) < 50" by simp
  show ?thesis
    unfolding vid_batches_def MAX_BATCH_def
    by (simp add: split_batches_rec[OF p 2] split_batches_Nil)
qed

lemma snapshot_of_item0: "snapshot_of (item0 v) = rec0" and item_id_item0: "item_id (item0 v) = v"
  by (simp_all add: snapshot_of_def item0_def rec0_def)

lemma foldl_update_same:
  "foldl (\<lambda>out it. AList.update (item_id it) (snapshot_of it) out) [(v, rec0)] (replicate n (item0 v))
     = [(v, rec0)]"
  by (induction n) (simp_all add: snapshot_of_item0 item_id_item0)

lemma collect_items_replicate: "0 < n \<Longrightarrow> collect_items (replicate n (item0 v)) = [(v, rec0)]"
  by (cases n) (simp_all add: collect_items_def snapshot_of_item0 item_id_item0 foldl_update_same)

lemma collect_items_single: "collect_items [item0 v] = [(v, rec0)]"
  by (simp add: collect_items_def snapshot_of_item0 item_id_item0)

lemma fetch_loop_echo:
  "fetch_loop (echo_service lat) out_dir ts_now batch attempt s
     = (None, polled out_dir ts_now batch (collect_items (map item0 batch))
                (requested (echo_service lat) batch attempt s))"
  by (rule fetch_loop_Response) (simp add: echo_service_def)

lemma fetch_loop_const_retry:
  "attempt < max_retries \<Longrightarrow>
   fetch_loop (const_service \<lparr>outcome = Raises (HttpError st), latency = l\<rparr>) out_dir ts_now batch attempt s
     = fetch_loop (const_service \<lparr>outcome = Raises (HttpError st), latency = l\<rparr>) out_dir ts_now batch (Suc attempt)
         (slept (backoff_initial * 2 ^ attempt)
            (requested (const_service \<lparr>outcome = Raises (HttpError st), latency = l\<rparr>) batch attempt s))"
  by (rule fetch_loop_retry) (simp_all add: const_service_def)

lemma fetch_loop_const_give_up:
  "max_retries \<le> attempt \<Longrightarrow>
   fetch_loop (const_service \<lparr>outcome = Raises (HttpError st), latency = l\<rparr>) out_dir ts_now batch attempt s
     = (None, log_event (EvSkipped batch)
          (requested (const_service \<lparr>outcome = Raises (HttpError st), latency = l\<rparr>) batch attempt s))"
  by (rule fetch_loop_give_up) (simp_all add: const_service_def)

lemma log_event_fields:
  "clock (log_event e s) = clock s"
  "requests (log_event e s) = requests s"
  "files (log_event e s) = files s"
  "call_count (log_event e s) = call_count s"
  "trace (log_event e s) = trace s @ [e]"
  by (simp_all add: log_event_def)

lemma poll_rounds_step:
  assumes "clock s < end_t"
      and "poll_batches service out_dir end_t (clock s) batches s = (None, s1)"
      and "0 < interval"
  shows "poll_rounds (Suc fuel) service out_dir interval end_t batches s
     = poll_rounds fuel service out_dir interval end_t batches (slept (real_of_int interval) s1)"
  using assms by (subst poll_rounds.simps) (simp add: time_sleep_nonneg)

lemma run_polling_loop_unlimited:
  "interval \<noteq> 0 \<Longrightarrow>
   run_polling_loop fuel service video_ids out_dir interval t0_hours None s
     = poll_rounds fuel service out_dir interval (clock s + t0_hours * 3600) (vid_batches video_ids)
         ((ensure_out_dirs out_dir video_ids s)\<lparr>call_count := 0\<rparr>)"
  by (simp add: run_polling_loop_def estimate_calls_def Let_def ensure_out_dirs_def)

lemma start_state_fields:
  "clock ((ensure_out_dirs out_dir video_ids s)\<lparr>call_count := 0\<rparr>) = clock s"
  "requests ((ensure_out_dirs out_dir video_ids s)\<lparr>call_count := 0\<rparr>) = requests s"
  "files ((ensure_out_dirs out_dir video_ids s)\<lparr>call_count := 0\<rparr>) = files s"
  "call_count ((ensure_out_dirs out_dir video_ids s)\<lparr>call_count := 0\<rparr>) = 0"
  "trace ((ensure_out_dirs out_dir video_ids s)\<lparr>call_count := 0\<rparr>) = trace s"
  by (simp_all add: ensure_out_dirs_def)

lemma latency_echo: "latency (echo_service lat n ids) = lat"
  by (simp add: echo_service_def)

lemma latency_const: "latency (const_service r n ids) = latency r"
  by (simp add: const_service_def)

lemma init_state_fields:
  "clock init_state = 0" "requests init_state = 0" "files init_state = Map.empty"
  "call_count init_state = 0" "trace init_state = []"
  by (simp_all add: init_state_def)

lemma file_rows_slept: "file_rows (slept secs s) p = file_rows s p"
  by (rule file_rows_cong) (simp add: slept_fields)

lemma files_polled_requested:
  "files (polled out_dir ts_now batch snaps (requested service batch' attempt s))
     = files (append_ops out_dir (map (\<lambda>kv. (clock (requested service batch' attempt s), kv)) snaps)
         (requested service batch' attempt s))"
  by (simp add: polled_fields append_rows_to_csv_ops)

section \<open>Fuel\<close>

text \<open>
  The clock never goes back, and for a positive interval every round takes at
  least the interval. A run with a positive interval therefore ends within the
  number of rounds that \<^verbatim>\<open>estimate_calls\<close> plans: with that much fuel the model does
  not run out of fuel.
\<close>

lemma fetch_loop_clock_mono: "clock s \<le> clock (snd (fetch_loop service out_dir ts_now batch attempt s))"
proof -
  define P :: "nat \<Rightarrow> state \<Rightarrow> py_error option \<times> state \<Rightarrow> bool" where
    "P = (\<lambda>attempt s r. clock s \<le> clock (snd r))"
  have "P attempt s (fetch_loop service out_dir ts_now batch attempt s)"
  proof (rule fetch_loop_rule)
    fix attempt and s :: state and its
    show "P attempt s (None, polled out_dir ts_now batch (collect_items its) (requested service batch attempt s))"
      unfolding P_def by (simp add: polled_fields requested_fields)
  next
    fix attempt and s :: state and st
    show "P attempt s (None, log_event (EvSkipped batch) (requested service batch attempt s))"
      unfolding P_def by (simp add: log_event_fields requested_fields)
  next
    fix attempt and s :: state and e
    show "P attempt s (Some e, requested service batch attempt s)"
      unfolding P_def by (simp add: requested_fields)
  next
    fix attempt and s :: state and st r
    assume "P (Suc attempt) (slept (backoff_initial * 2 ^ attempt) (requested service batch attempt s)) r"
    moreover have "0 \<le> backoff_initial * 2 ^ attempt" by (rule backoff_nonneg)
    ultimately show "P attempt s r"
      unfolding P_def by (simp add: slept_fields requested_fields)
  qed
  then show ?thesis by (simp add: P_def)
qed

lemma poll_batches_clock_mono:
  "clock s \<le> clock (snd (poll_batches service out_dir end_t ts_now batches s))"
proof (induction batches arbitrary: s)
  case Nil
  then show ?case by simp
next
  case (Cons batch rest)
  obtain e s1 where r: "fetch_loop service out_dir ts_now batch 0 s = (e, s1)"
    by (cases "fetch_loop service out_dir ts_now batch 0 s")
  have m: "clock s \<le> clock s1"
    using fetch_loop_clock_mono [of s service out_dir ts_now batch 0] r by simp
  have "clock s1 \<le> clock (snd (poll_batches service out_dir end_t ts_now rest s1))"
    by (rule Cons.IH)
  then show ?case using r m by (cases e) simp_all
qed

lemma poll_rounds_enough_fuel:
  "0 < interval \<Longrightarrow> end_t - clock s \<le> real fuel * real_of_int interval \<Longrightarrow>
   fst (poll_rounds fuel service out_dir interval end_t batches s) \<noteq> OutOfFuel"
proof (induction fuel arbitrary: s)
  case 0
  then show ?case by (subst poll_rounds.simps) simp
next
  case (Suc fuel)
  obtain e s1 where r: "poll_batches service out_dir end_t (clock s) batches s = (e, s1)"
    by (cases "poll_batches service out_dir end_t (clock s) batches s")
  have m: "clock s \<le> clock s1"
    using poll_batches_clock_mono [of s service out_dir end_t "clock s" batches] r by simp
  have "end_t - clock s \<le> real fuel * real_of_int interval + real_of_int interval"
    using Suc.prems(2) by (simp add: algebra_simps)
  then have "end_t - clock (slept (real_of_int interval) s1) \<le> real fuel * real_of_int interval"
    using m by (simp add: slept_fields)
  then have "fst (poll_rounds fuel service out_dir interval end_t batches (slept (real_of_int interval) s1))
      \<noteq> OutOfFuel"
    by (rule Suc.IH[OF Suc.prems(1)])
  then show ?case
    using r Suc.prems(1)
    by (subst poll_rounds.simps) (auto simp: time_sleep_nonneg split: option.splits)
qed

lemma run_polling_loop_enough_fuel:
  assumes "0 < interval"
      and "estimate_calls (length video_ids) interval t0_hours = Inr planned"
      and "nat planned \<le> fuel"
  shows "fst (run_polling_loop fuel service video_ids out_dir interval t0_hours max_calls s) \<noteq> OutOfFuel"
proof -
  have p: "planned = \<lceil>t0_hours * 3600 / real_of_int interval\<rceil>"
    using assms(1,2) by (simp add: estimate_calls_def)
  have "t0_hours * 3600 / real_of_int interval \<le> real_of_int planned"
    unfolding p by (rule le_of_int_ceiling)
  also have "real_of_int planned \<le> real fuel"
    using assms(3) by linarith
  finally have "t0_hours * 3600 \<le> real fuel * real_of_int interval"
    using assms(1) by (simp add: pos_divide_le_eq)
  then have "fst (poll_rounds fuel service out_dir interval (clock s + t0_hours * 3600) (vid_batches video_ids)
       ((ensure_out_dirs out_dir video_ids s)\<lparr>call_count := 0\<rparr>)) \<noteq> OutOfFuel"
    using assms(1) by (intro poll_rounds_enough_fuel) (simp_all add: start_state_fields)
  then show ?thesis
    using assms(2) by (simp add: run_polling_loop_def Let_def ensure_out_dirs_def)
qed

section \<open>A run with 120 ids\<close>

lemma ensure_out_dirs_fields:
  "clock (ensure_out_dirs out_dir video_ids s) = clock s"
  "requests (ensure_out_dirs out_dir video_ids s) = requests s"
  "files (ensure_out_dirs out_dir video_ids s) = files s"
  "trace (ensure_out_dirs out_dir video_ids s) = trace s"
  by (simp_all add: ensure_out_dirs_def)

lemma batches_120: "vid_batches (replicate 120 v) = [replicate 50 v, replicate 50 v, replicate 20 v]"
proof -
  have p: "(0::nat) < 50" by simp
  have 1: "replicate 120 v \<noteq> []" and 2: "replicate 70 v \<noteq> []" and 3: "replicate 20 v \<noteq> []"
    by simp_all
  show ?thesis
    unfolding vid_batches_def MAX_BATCH_def
    by (simp add: split_batches_rec[OF p 1] split_batches_rec[OF p 2] split_batches_rec[OF p 3]
        split_batches_Nil)
qed

section \<open>The claims\<close>

subsection \<open>The quota estimate\<close>

text \<open>
  C1. The claim is that the estimate is the number of rounds times the number of
  batches of a round. \<^verbatim>\<open>estimate_calls\<close> returns the number of rounds alone: for 120
  ids, an interval of 60 seconds and one hour it returns 60, not 180, while the
  loop splits the 120 ids into 3 batches. For a window of one minute it returns 1:
  with \<^verbatim>\<open>max_calls\<close> = 2 the run is not aborted, and it sends 3 requests.
\<close>

theorem estimate_ignores_batches:
  "estimate_calls 120 60 1 = Inr 60
   \<and> length (vid_batches (replicate 120 ''abc12345678'')) = 3
   \<and> estimate_calls 120 60 1 \<noteq> Inr (60 * 3)
   \<and> estimate_calls 120 60 (1 / 60) = Inr 1
   \<and> fst (run_polling_loop 5 (echo_service 0) (replicate 120 ''abc12345678'') ''data'' 60 (1 / 60)
        (Some 2) init_state) = Completed
   \<and> requests (snd (run_polling_loop 5 (echo_service 0) (replicate 120 ''abc12345678'') ''data'' 60 (1 / 60)
        (Some 2) init_state)) = 3"
proof -
  let ?svc = "echo_service 0"
  let ?v = "''abc12345678''"
  let ?A = "replicate 50 ?v"
  let ?B = "replicate 20 ?v"
  define s0 where "s0 = (ensure_out_dirs ''data'' (replicate 120 ?v) init_state)\<lparr>call_count := 0\<rparr>"
  define s1 where "s1 = polled ''data'' 0 ?A [(?v, rec0)] (requested ?svc ?A 0 s0)"
  define s2 where "s2 = polled ''data'' 0 ?A [(?v, rec0)] (requested ?svc ?A 0 s1)"
  define s3 where "s3 = polled ''data'' 0 ?B [(?v, rec0)] (requested ?svc ?B 0 s2)"
  have s0: "clock s0 = 0" "requests s0 = 0"
    by (simp_all add: s0_def start_state_fields init_state_fields)
  have s1: "clock s1 = 0" "requests s1 = 1"
    by (simp_all add: s1_def polled_fields requested_fields latency_echo s0)
  have s2: "clock s2 = 0" "requests s2 = 2"
    by (simp_all add: s2_def polled_fields requested_fields latency_echo s1)
  have s3: "clock s3 = 0" "requests s3 = 3"
    by (simp_all add: s3_def polled_fields requested_fields latency_echo s2)
  have pbs: "poll_batches ?svc ''data'' 60 (clock s0) [?A, ?A, ?B] s0 = (None, s3)"
    by (simp add: s0 fetch_loop_echo collect_items_replicate
        s1_def[symmetric] s1 s2_def[symmetric] s2 s3_def[symmetric])
  have "poll_rounds 5 ?svc ''data'' 60 60 [?A, ?A, ?B] s0 = poll_rounds 4 ?svc ''data'' 60 60 [?A, ?A, ?B] (slept 60 s3)"
    using poll_rounds_step [where fuel = 4 and interval = 60 and s = s0 and ?s1.0 = s3, OF _ pbs]
    by (simp add: s0)
  also have "\<dots> = (Completed, slept 60 s3)"
    by (rule poll_rounds_past_deadline) (simp add: slept_fields s3)
  finally have "run_polling_loop 5 ?svc (replicate 120 ?v) ''data'' 60 (1 / 60) (Some 2) init_state
      = (Completed, slept 60 s3)"
    by (simp add: run_polling_loop_def estimate_calls_def Let_def batches_120 init_state_fields s0_def
        ensure_out_dirs_fields)
  then show ?thesis
    by (simp add: slept_fields s3 estimate_calls_def vid_batches_def MAX_BATCH_def length_split_batches)
qed

subsection \<open>The quota check before the run\<close>

text \<open>
  C2. When \<^verbatim>\<open>max_calls\<close> is set and the number of calls that \<^verbatim>\<open>estimate_calls\<close>
  plans is greater, \<^verbatim>\<open>run_polling_loop\<close> ends as \<open>Aborted\<close>: the service has received no
  request, nothing has been logged, no file has been written and no time has
  passed (only the output directories have been created).
\<close>

theorem preflight_abort:
  assumes "estimate_calls (length video_ids) interval t0_hours = Inr planned"
      and "max_calls = Some m"
      and "m < planned"
  shows "fst (run_polling_loop fuel service video_ids out_dir interval t0_hours max_calls s) = Aborted
     \<and> requests (snd (run_polling_loop fuel service video_ids out_dir interval t0_hours max_calls s)) = requests s
     \<and> trace (snd (run_polling_loop fuel service video_ids out_dir interval t0_hours max_calls s)) = trace s
     \<and> files (snd (run_polling_loop fuel service video_ids out_dir interval t0_hours max_calls s)) = files s
     \<and> clock (snd (run_polling_loop fuel service video_ids out_dir interval t0_hours max_calls s)) = clock s"
  using assms by (simp add: run_polling_loop_def Let_def ensure_out_dirs_def)

theorem preflight_abort_witness:
  "estimate_calls 1 60 1 = Inr 60
   \<and> fst (run_polling_loop 1000 (const_service \<lparr>outcome = Response [item0 ''abc12345678''], latency = 0\<rparr>)
         [''abc12345678''] ''data'' 60 1 (Some 59) init_state) = Aborted
   \<and> files (snd (run_polling_loop 1000 (const_service \<lparr>outcome = Response [item0 ''abc12345678''], latency = 0\<rparr>)
         [''abc12345678''] ''data'' 60 1 (Some 59) init_state)) = Map.empty"
proof -
  have e: "estimate_calls (length [''abc12345678'']) 60 1 = Inr 60"
    by (simp add: estimate_calls_def)
  show ?thesis
    using e preflight_abort [OF e, of "Some 59" 59 1000
        "const_service \<lparr>outcome = Response [item0 ''abc12345678''], latency = 0\<rparr>" "''data''" init_state]
    by (simp add: init_state_def)
qed

subsection \<open>Retries on errors\<close>

text \<open>
  C3, as the script has it. When every request for a batch fails with a transient
  error (an \<^verbatim>\<open>HttpError\<close> of status 429 or 5xx), the loop sends 7 requests, not 6:
  the first, and one after each of 6 sleeps. After the \<open>k\<close>-th failed request it
  sleeps \<open>2 * 2 ^ (k - 1)\<close> seconds, for \<open>k\<close> from 1 to 6: 2, 4, 8, 16, 32 and 64
  seconds, 126 seconds in all. After the 7th failure it gives the batch up: it logs
  the batch as skipped, writes no file and raises nothing.
\<close>

theorem retries_then_gives_up:
  assumes "\<forall>n ids. \<exists>st. outcome (service n ids) = Raises (HttpError (Some st)) \<and> transient st"
  shows "fst (fetch_loop service out_dir ts_now batch 0 s) = None
     \<and> requests (snd (fetch_loop service out_dir ts_now batch 0 s)) = requests s + 7
     \<and> map step_of (trace (snd (fetch_loop service out_dir ts_now batch 0 s)))
         = map step_of (trace s)
           @ [Request 0 batch, Sleep 2, Request 1 batch, Sleep 4, Request 2 batch, Sleep 8,
              Request 3 batch, Sleep 16, Request 4 batch, Sleep 32, Request 5 batch, Sleep 64,
              Request 6 batch, Skipped batch]
     \<and> map (\<lambda>f. fst (snd f)) (fetches (trace (snd (fetch_loop service out_dir ts_now batch 0 s))))
         = map (\<lambda>f. fst (snd f)) (fetches (trace s)) @ [0, 1, 2, 3, 4, 5, 6]
     \<and> sleeps (trace (snd (fetch_loop service out_dir ts_now batch 0 s)))
         = sleeps (trace s) @ [2, 4, 8, 16, 32, 64]
     \<and> sum_list (sleeps (trace (snd (fetch_loop service out_dir ts_now batch 0 s))))
         = sum_list (sleeps (trace s)) + 126
     \<and> last (trace (snd (fetch_loop service out_dir ts_now batch 0 s))) = EvSkipped batch
     \<and> files (snd (fetch_loop service out_dir ts_now batch 0 s)) = files s"
proof -
  have f: "\<exists>st. outcome (service n ids) = Raises (HttpError st)" for n ids
    using assms by blast
  note r = fetch_loop_all_fail [where service = service and s = s
      and out_dir = out_dir and ts_now = ts_now and batch = batch, OF f]
  note t = fetch_loop_all_fail_steps [where service = service and s = s
      and out_dir = out_dir and ts_now = ts_now and batch = batch, OF f]
  show ?thesis by (simp add: r t)
qed

theorem retries_then_gives_up_witness:
  "transient 503
   \<and> requests (snd (fetch_loop (const_service \<lparr>outcome = Raises (HttpError (Some 503)), latency = 0\<rparr>)
       ''data'' 0 [''abc12345678''] 0 init_state)) = 7
   \<and> map step_of (trace (snd (fetch_loop (const_service \<lparr>outcome = Raises (HttpError (Some 503)), latency = 0\<rparr>)
       ''data'' 0 [''abc12345678''] 0 init_state)))
      = [Request 0 [''abc12345678''], Sleep 2, Request 1 [''abc12345678''], Sleep 4,
         Request 2 [''abc12345678''], Sleep 8, Request 3 [''abc12345678''], Sleep 16,
         Request 4 [''abc12345678''], Sleep 32, Request 5 [''abc12345678''], Sleep 64,
         Request 6 [''abc12345678''], Skipped [''abc12345678'']]
   \<and> sleeps (trace (snd (fetch_loop (const_service \<lparr>outcome = Raises (HttpError (Some 503)), latency = 0\<rparr>)
       ''data'' 0 [''abc12345678''] 0 init_state))) = [2, 4, 8, 16, 32, 64]"
  using retries_then_gives_up [of "const_service \<lparr>outcome = Raises (HttpError (Some 503)), latency = 0\<rparr>"
      "''data''" 0 "[''abc12345678'']" init_state]
  by (simp add: const_service_def init_state_def transient_def)

theorem six_attempts_counterexample:
  "requests (snd (fetch_loop (const_service \<lparr>outcome = Raises (HttpError (Some 503)), latency = 0\<rparr>)
       ''data'' 0 [''abc12345678''] 0 init_state)) = 7
   \<and> requests (snd (fetch_loop (const_service \<lparr>outcome = Raises (HttpError (Some 503)), latency = 0\<rparr>)
       ''data'' 0 [''abc12345678''] 0 init_state)) \<noteq> 6
   \<and> map (\<lambda>f. fst (snd f)) (fetches (trace (snd (fetch_loop
       (const_service \<lparr>outcome = Raises (HttpError (Some 503)), latency = 0\<rparr>)
       ''data'' 0 [''abc12345678''] 0 init_state)))) = [0, 1, 2, 3, 4, 5, 6]"
proof -
  note r = fetch_loop_all_fail [where s = init_state
      and service = "const_service \<lparr>outcome = Raises (HttpError (Some 503)), latency = 0\<rparr>"
      and out_dir = "''data''" and ts_now = 0 and batch = "[''abc12345678'']", OF const_service_fails]
  show ?thesis by (simp add: r) (simp add: init_state_def)
qed

text \<open>
  C4. The claim is that an error other than 429 or 5xx ends the batch after one
  request. For a service that answers every request with status 403, the loop
  sends 7 requests and sleeps 2, 4, 8, 16, 32 and 64 seconds between them.
\<close>

theorem non_transient_error_is_retried:
  "requests (snd (fetch_loop (const_service \<lparr>outcome = Raises (HttpError (Some 403)), latency = 0\<rparr>)
       ''data'' 0 [''abc12345678''] 0 init_state)) = 7
   \<and> sleeps (trace (snd (fetch_loop (const_service \<lparr>outcome = Raises (HttpError (Some 403)), latency = 0\<rparr>)
       ''data'' 0 [''abc12345678''] 0 init_state))) = [2, 4, 8, 16, 32, 64]"
proof -
  note r = fetch_loop_all_fail [where s = init_state
      and service = "const_service \<lparr>outcome = Raises (HttpError (Some 403)), latency = 0\<rparr>"
      and out_dir = "''data''" and ts_now = 0 and batch = "[''abc12345678'']", OF const_service_fails]
  show ?thesis by (simp add: r) (simp add: init_state_def)
qed

subsection \<open>The timestamp of the rows\<close>

text \<open>
  C5, as the script has it. \<^verbatim>\<open>append_rows_to_csv\<close> reads the clock once, when it is
  called, and stamps every row it writes with that value: the rows that one batch
  adds to any file carry one timestamp, the time at which the request for the batch
  had been answered. Files only grow. (\<^verbatim>\<open>ts_now\<close>, read once at the start of the
  round, goes to the log line only.)
\<close>

theorem batch_rows_share_timestamp:
  "file_rows (append_rows_to_csv out_dir snaps s) p
     = file_rows s p @ new_rows s (append_rows_to_csv out_dir snaps s) p
   \<and> (\<forall>r \<in> set (new_rows s (append_rows_to_csv out_dir snaps s) p).
         r = csv_headers \<or> row_ts r = Some (clock s))
   \<and> file_rows (snd (fetch_loop service out_dir ts_now batch attempt s)) p
     = file_rows s p @ new_rows s (snd (fetch_loop service out_dir ts_now batch attempt s)) p
   \<and> (\<forall>r \<in> set (new_rows s (snd (fetch_loop service out_dir ts_now batch attempt s)) p).
         r = csv_headers
         \<or> row_ts r = Some (clock (snd (fetch_loop service out_dir ts_now batch attempt s))))"
proof -
  obtain new1 where 1: "file_rows (append_rows_to_csv out_dir snaps s) p = file_rows s p @ new1"
    "\<forall>r \<in> set new1. r = csv_headers \<or> row_ts r = Some (clock s)"
    using file_rows_append_rows_grow by blast
  obtain new2 where 2: "file_rows (snd (fetch_loop service out_dir ts_now batch attempt s)) p = file_rows s p @ new2"
    "\<forall>r \<in> set new2. r = csv_headers
        \<or> row_ts r = Some (clock (snd (fetch_loop service out_dir ts_now batch attempt s)))"
    using fetch_loop_rows_grow by blast
  show ?thesis
    using 1 2 by (simp add: new_rows_eq[OF 1(1)] new_rows_eq[OF 2(1)])
qed

theorem batch_rows_share_timestamp_witness:
  "file_rows (snd (fetch_loop (echo_service 1500000) ''data'' 0 [''a'', ''b''] 0 init_state)) ''data/a/polls.csv''
     = [csv_headers, csv_row ''a'' (3 / 2) rec0]
   \<and> clock (snd (fetch_loop (echo_service 1500000) ''data'' 0 [''a'', ''b''] 0 init_state)) = 3 / 2
   \<and> row_ts (csv_row ''a'' (3 / 2) rec0) = Some (clock (snd (fetch_loop (echo_service 1500000) ''data'' 0 [''a'', ''b''] 0 init_state)))"
proof -
  have pa: "csv_path ''data'' ''a'' = ''data/a/polls.csv''" and pb: "csv_path ''data'' ''b'' = ''data/b/polls.csv''"
    by (simp_all add: csv_path_def path_join_def)
  have c: "collect_items [item0 ''a'', item0 ''b''] = [(''a'', rec0), (''b'', rec0)]"
    by (simp add: collect_items_def snapshot_of_item0 item_id_item0)
  have f: "file_rows (snd (fetch_loop (echo_service 1500000) ''data'' 0 [''a'', ''b''] 0 init_state)) ''data/a/polls.csv''
     = [csv_headers, csv_row ''a'' (3 / 2) rec0]"
    by (simp add: fetch_loop_echo c file_rows_def files_polled_requested files_append_ops rows_for_def pa pb
        requested_fields latency_echo init_state_fields)
  have k: "clock (snd (fetch_loop (echo_service 1500000) ''data'' 0 [''a'', ''b''] 0 init_state)) = 3 / 2"
    by (simp add: fetch_loop_echo polled_fields requested_fields latency_echo init_state_fields)
  show ?thesis
    using batch_rows_share_timestamp [of "''data''" "[]" init_state "''data/a/polls.csv''"
        "echo_service 1500000" 0 "[''a'', ''b'']" 0]
    by (simp add: f k row_ts_csv_row)
qed

text \<open>
  The claim as stated fails for a round of two batches. With 51 ids, a service that
  takes one second for a request, and a window of 10 seconds, the run has one round
  (both log lines carry \<^verbatim>\<open>ts_now\<close> = 0); the row of the first batch is stamped 1 and
  the row of the second batch is stamped 2.
\<close>

theorem round_timestamp_counterexample:
  "fst (run_polling_loop 5 (echo_service 1000000) (replicate 50 ''a'' @ [''b'']) ''data'' 60 (1 / 360)
       None init_state) = Completed
   \<and> trace (snd (run_polling_loop 5 (echo_service 1000000) (replicate 50 ''a'' @ [''b'']) ''data'' 60
       (1 / 360) None init_state))
     = [EvFetch 0 0 (replicate 50 ''a''), EvPolled 0 50 1, EvFetch 1 0 [''b''], EvPolled 0 1 2, EvSleep 60]
   \<and> file_rows (snd (run_polling_loop 5 (echo_service 1000000) (replicate 50 ''a'' @ [''b'']) ''data'' 60
       (1 / 360) None init_state)) ''data/a/polls.csv''
     = [csv_headers, csv_row ''a'' 1 rec0]
   \<and> file_rows (snd (run_polling_loop 5 (echo_service 1000000) (replicate 50 ''a'' @ [''b'']) ''data'' 60
       (1 / 360) None init_state)) ''data/b/polls.csv''
     = [csv_headers, csv_row ''b'' 2 rec0]"
proof -
  let ?svc = "echo_service 1000000"
  let ?A = "replicate 50 ''a''"
  let ?B = "[''b'']"
  define s0 where "s0 = (ensure_out_dirs ''data'' (?A @ ?B) init_state)\<lparr>call_count := 0\<rparr>"
  define s1 where "s1 = polled ''data'' 0 ?A [(''a'', rec0)] (requested ?svc ?A 0 s0)"
  define s2 where "s2 = polled ''data'' 0 ?B [(''b'', rec0)] (requested ?svc ?B 0 s1)"
  have s0: "clock s0 = 0" "trace s0 = []" "files s0 = Map.empty" "call_count s0 = 0"
    by (simp_all add: s0_def start_state_fields init_state_fields)
  have s1: "clock s1 = 1" "trace s1 = [EvFetch 0 0 ?A, EvPolled 0 50 1]" "call_count s1 = 1"
    by (simp_all add: s1_def polled_fields requested_fields latency_echo s0)
  have s2: "clock s2 = 2" "trace s2 = [EvFetch 0 0 ?A, EvPolled 0 50 1, EvFetch 1 0 ?B, EvPolled 0 1 2]"
    by (simp_all add: s2_def polled_fields requested_fields latency_echo s1)
  have pa: "csv_path ''data'' ''a'' = ''data/a/polls.csv''" and pb: "csv_path ''data'' ''b'' = ''data/b/polls.csv''"
    by (simp_all add: csv_path_def path_join_def)
  have f1: "files s1 = [''data/a/polls.csv'' \<mapsto> [csv_headers, csv_row ''a'' 1 rec0]]"
    unfolding s1_def files_polled_requested
    by (rule ext) (simp add: files_append_ops rows_for_def pa requested_fields latency_echo s0)
  have f2: "files s2 = [''data/a/polls.csv'' \<mapsto> [csv_headers, csv_row ''a'' 1 rec0],
       ''data/b/polls.csv'' \<mapsto> [csv_headers, csv_row ''b'' 2 rec0]]"
    unfolding s2_def files_polled_requested
    by (rule ext) (simp add: files_append_ops rows_for_def pb requested_fields latency_echo s1 f1)
  have pbs: "poll_batches ?svc ''data'' 10 (clock s0) [?A, ?B] s0 = (None, s2)"
    by (simp add: s0 fetch_loop_echo collect_items_replicate collect_items_single
        s1_def[symmetric] s1 s2_def[symmetric])
  have "poll_rounds 5 ?svc ''data'' 60 10 [?A, ?B] s0 = poll_rounds 4 ?svc ''data'' 60 10 [?A, ?B] (slept 60 s2)"
    using poll_rounds_step [where fuel = 4 and interval = 60 and s = s0 and ?s1.0 = s2, OF _ pbs]
    by (simp add: s0)
  also have "\<dots> = (Completed, slept 60 s2)"
    by (rule poll_rounds_past_deadline) (simp add: slept_fields s2)
  finally have "run_polling_loop 5 ?svc (?A @ ?B) ''data'' 60 (1 / 360) None init_state = (Completed, slept 60 s2)"
    by (simp add: run_polling_loop_unlimited batches_51 init_state_fields s0_def)
  then show ?thesis
    by (simp add: slept_fields s2 file_rows_slept) (simp add: file_rows_def f2)
qed

subsection \<open>The batches of a round\<close>

text \<open>
  C6. For every list and every batch size \<open>n > 0\<close>, the batches are contiguous slices
  of the input (the \<open>k\<close>-th is \<^verbatim>\<open>xs[k*n : k*n+n]\<close>), none is empty or longer than
  \<open>n\<close>, and their concatenation is the input: every element is covered once, in the
  original order. The script's batches of 120 ids have the sizes 50, 50 and 20.
\<close>

theorem batches_cover_input:
  assumes "0 < n"
  shows "concat (split_batches n xs) = xs
     \<and> (\<forall>k < length (split_batches n xs). split_batches n xs ! k = slice xs (k * n) (k * n + n))
     \<and> (\<forall>b \<in> set (split_batches n xs). length b \<le> n \<and> b \<noteq> [])
     \<and> length (split_batches n xs) = (length xs + n - 1) div n
     \<and> (length ids = 120 \<longrightarrow> map length (vid_batches ids) = [50, 50, 20])"
  using assms
  by (simp add: concat_split_batches split_batches_nth split_batches_bounds length_split_batches
      vid_batches_def MAX_BATCH_def sizes_120)

theorem batches_cover_input_witness:
  "concat (split_batches 2 [1, 2, 3 :: nat]) = [1, 2, 3]
   \<and> split_batches 2 [1, 2, 3 :: nat] = [[1, 2], [3]]
   \<and> map length (vid_batches (replicate 120 ''v'')) = [50, 50, 20]"
proof -
  have "split_batches 2 [1, 2, 3 :: nat] = [[1, 2], [3]]"
    by (simp add: split_batches_rec split_batches_Nil)
  then show ?thesis
    using batches_cover_input [of 2 "[1, 2, 3 :: nat]" "replicate 120 ''v''"] by simp
qed

subsection \<open>The header of a CSV file\<close>

text \<open>
  C7. Take any sequence of append operations and any file \<open>p\<close>; let \<open>N\<close> be the number
  of operations that write to \<open>p\<close>. If \<open>p\<close> did not exist and \<open>N > 0\<close>, the file holds the
  header followed by the \<open>N\<close> data rows. If \<open>p\<close> existed, the file holds its old rows
  followed by the \<open>N\<close> data rows: no header is written again. No data row is a header
  row. A call of \<^verbatim>\<open>append_rows_to_csv\<close> is such a sequence, one operation per entry.
\<close>

theorem header_written_once:
  "(files s p = None \<and> rows_for out_dir p ops \<noteq> [] \<longrightarrow>
      files (append_ops out_dir ops s) p = Some (csv_headers # rows_for out_dir p ops))
   \<and> (\<forall>c. files s p = Some c \<longrightarrow>
         files (append_ops out_dir ops s) p = Some (c @ rows_for out_dir p ops))
   \<and> (rows_for out_dir p ops = [] \<longrightarrow> files (append_ops out_dir ops s) p = files s p)
   \<and> length (rows_for out_dir p ops)
       = length (filter (\<lambda>op. csv_path out_dir (fst (snd op)) = p) ops)
   \<and> csv_headers \<notin> set (rows_for out_dir p ops)
   \<and> append_rows_to_csv out_dir snaps s
       = append_ops out_dir (map (\<lambda>kv. (clock s, kv)) snaps) s"
  by (simp add: files_append_ops length_rows_for header_notin_rows_for append_rows_to_csv_ops)

theorem header_written_once_witness:
  "files (append_ops ''data'' [(1, ''abc'', rec0), (2, ''abc'', rec0), (3, ''abc'', rec0)] init_state)
      ''data/abc/polls.csv''
     = Some [csv_headers, csv_row ''abc'' 1 rec0, csv_row ''abc'' 2 rec0, csv_row ''abc'' 3 rec0]"
  using header_written_once [of init_state "''data/abc/polls.csv''" "''data''"
      "[(1, ''abc'', rec0), (2, ''abc'', rec0), (3, ''abc'', rec0)]"]
  by (simp add: rows_for_def csv_path_def path_join_def init_state_def)

subsection \<open>The deadline\<close>

text \<open>
  C8, as the script has it. The deadline is tested before the first request of each
  batch and at the start of each round, not before a retry. So in every run, every
  first request for a batch starts before the deadline. Once the clock has reached
  the deadline, the remaining batches of the round are skipped, and the loop ends
  as \<open>Completed\<close> at its next test, also after the sleep that follows the round: the
  skipped batches are not taken up again.
\<close>

theorem batches_start_before_deadline:
  assumes "first_attempts_before (clock s + t0_hours * 3600) (trace s)"
  shows "first_attempts_before (clock s + t0_hours * 3600)
       (trace (snd (run_polling_loop fuel service video_ids out_dir interval t0_hours max_calls s)))
     \<and> (\<forall>s1. clock s + t0_hours * 3600 \<le> clock s1 \<longrightarrow>
           poll_batches service out_dir (clock s + t0_hours * 3600) ts_now rest s1 = (None, s1)
         \<and> poll_rounds fuel' service out_dir interval (clock s + t0_hours * 3600) batches s1
             = (Completed, s1)
         \<and> (0 \<le> interval \<longrightarrow>
              poll_rounds fuel' service out_dir interval (clock s + t0_hours * 3600) batches
                (slept (real_of_int interval) s1) = (Completed, slept (real_of_int interval) s1)))"
  using assms
  by (simp add: run_polling_loop_first_attempts poll_batches_past_deadline poll_rounds_past_deadline
      slept_fields)

theorem batches_start_before_deadline_witness:
  "first_attempts_before 1 (trace (snd (run_polling_loop 5
       (const_service \<lparr>outcome = Raises (HttpError (Some 503)), latency = 0\<rparr>)
       [''abc12345678''] ''data'' 60 (1 / 3600) None init_state)))
   \<and> poll_batches (const_service \<lparr>outcome = Raises (HttpError (Some 503)), latency = 0\<rparr>) ''data'' 1 0
       [[''abc12345678'']] (slept 2 init_state) = (None, slept 2 init_state)"
  using batches_start_before_deadline [of init_state "1 / 3600" 5
      "const_service \<lparr>outcome = Raises (HttpError (Some 503)), latency = 0\<rparr>"
      "[''abc12345678'']" "''data''" 60 None 0 "[[''abc12345678'']]"]
  by (simp add: init_state_fields first_attempts_before_Nil slept_fields)

text \<open>
  A retry can start after the deadline. With a window of one second and a service
  that always answers 503, the first request starts at time 0 and the six retries
  start at 2, 6, 14, 30, 62 and 126 seconds, all after the deadline at 1.
\<close>

theorem retry_after_deadline_counterexample:
  "fst (run_polling_loop 5 (const_service \<lparr>outcome = Raises (HttpError (Some 503)), latency = 0\<rparr>)
       [''abc12345678''] ''data'' 60 (1 / 3600) None init_state) = Completed
   \<and> fetches (trace (snd (run_polling_loop 5
       (const_service \<lparr>outcome = Raises (HttpError (Some 503)), latency = 0\<rparr>)
       [''abc12345678''] ''data'' 60 (1 / 3600) None init_state)))
     = [(0, 0, [''abc12345678'']), (2, 1, [''abc12345678'']), (6, 2, [''abc12345678'']),
        (14, 3, [''abc12345678'']), (30, 4, [''abc12345678'']), (62, 5, [''abc12345678'']),
        (126, 6, [''abc12345678''])]
   \<and> clock init_state + (1 / 3600) * 3600 = 1"
proof -
  let ?svc = "const_service \<lparr>outcome = Raises (HttpError (Some 503)), latency = 0\<rparr>"
  let ?b = "[''abc12345678'']"
  define s0 where "s0 = (ensure_out_dirs ''data'' ?b init_state)\<lparr>call_count := 0\<rparr>"
  define sF where "sF = snd (fetch_loop ?svc ''data'' 0 ?b 0 s0)"
  have s0: "clock s0 = 0" "trace s0 = []"
    by (simp_all add: s0_def start_state_fields init_state_fields)
  have "fst (fetch_loop ?svc ''data'' 0 ?b 0 s0) = None"
    by (rule fetch_loop_all_fail(1)) (rule const_service_fails)
  then have fl: "fetch_loop ?svc ''data'' 0 ?b 0 s0 = (None, sF)"
    by (simp add: sF_def prod_eq_iff)
  have tr: "fetches (trace sF) = [(0, 0, ?b), (2, 1, ?b), (6, 2, ?b), (14, 3, ?b), (30, 4, ?b),
      (62, 5, ?b), (126, 6, ?b)]"
    unfolding sF_def
    by (simp add: fetch_loop_const_retry fetch_loop_const_give_up max_retries_def backoff_initial_def
        slept_fields requested_fields log_event_fields latency_const s0 fetches_append)
  have ck: "clock sF = 126"
    unfolding sF_def
    by (simp add: fetch_loop_const_retry fetch_loop_const_give_up max_retries_def backoff_initial_def
        slept_fields requested_fields log_event_fields latency_const s0)
  have pb: "poll_batches ?svc ''data'' 1 (clock s0) [?b] s0 = (None, sF)"
    by (simp add: s0 fl)
  have "poll_rounds 5 ?svc ''data'' 60 1 [?b] s0 = poll_rounds 4 ?svc ''data'' 60 1 [?b] (slept 60 sF)"
    using poll_rounds_step [where fuel = 4 and interval = 60 and s = s0 and ?s1.0 = sF, OF _ pb]
    by (simp add: s0)
  also have "\<dots> = (Completed, slept 60 sF)"
    by (rule poll_rounds_past_deadline) (simp add: slept_fields ck)
  finally have "run_polling_loop 5 ?svc ?b ''data'' 60 (1 / 3600) None init_state = (Completed, slept 60 sF)"
    by (simp add: run_polling_loop_unlimited batches_single init_state_fields s0_def)
  then show ?thesis
    by (simp add: slept_fields fetches_append tr init_state_fields)
qed

subsection \<open>Ids absent from the response, and ids requested twice\<close>

text \<open>
  C9. When the response to a batch holds no item for the id \<open>vid\<close>, the dict that
  \<^verbatim>\<open>videos_list_stats\<close> returns has exactly the ids of the response as keys and no
  entry for \<open>vid\<close>; the pass through the loop ends without an exception, logs the
  batch as polled (not as skipped), and no file gains a row of \<open>vid\<close>.
\<close>

theorem absent_id_dropped:
  assumes "outcome (service (requests s) batch) = Response its"
      and "vid \<notin> item_id ` set its"
  shows "fst (videos_list_stats service batch s) = Inr (collect_items its)
     \<and> fst ` set (collect_items its) = item_id ` set its
     \<and> map_of (collect_items its) vid = None
     \<and> fst (fetch_loop service out_dir ts_now batch attempt s) = None
     \<and> trace (snd (fetch_loop service out_dir ts_now batch attempt s))
         = trace s @ [EvFetch (clock s) attempt batch, EvPolled ts_now (length batch) (Suc (call_count s))]
     \<and> rows_of vid (file_rows (snd (fetch_loop service out_dir ts_now batch attempt s)) p)
         = rows_of vid (file_rows s p)"
proof -
  have n: "map_of (collect_items its) vid = None"
    using assms(2) by (simp add: map_of_collect_items_None)
  show ?thesis
    using n by (simp add: videos_list_stats_fst[where service=service and s=s and batch=batch and its=its, OF assms(1)] keys_collect_items
        rows_of_fetch_loop_Response[where service=service and s=s and batch=batch and its=its, OF assms(1)])
      (simp add: fetch_loop_Response[where service=service and s=s and batch=batch and its=its, OF assms(1)] polled_fields requested_fields)
qed

theorem absent_id_dropped_witness:
  "rows_of ''b'' (file_rows (snd (fetch_loop
       (const_service \<lparr>outcome = Response [item0 ''a''], latency = 0\<rparr>) ''data'' 0 [''a'', ''b''] 0 init_state))
       ''data/b/polls.csv'') = []
   \<and> trace (snd (fetch_loop
       (const_service \<lparr>outcome = Response [item0 ''a''], latency = 0\<rparr>) ''data'' 0 [''a'', ''b''] 0 init_state))
      = [EvFetch 0 0 [''a'', ''b''], EvPolled 0 2 1]"
  using absent_id_dropped [of "const_service \<lparr>outcome = Response [item0 ''a''], latency = 0\<rparr>"
      init_state "[''a'', ''b'']" "[item0 ''a'']" "''b''" "''data''" 0 0 "''data/b/polls.csv''"]
  by (simp add: const_service_def item0_def init_state_def file_rows_def rows_of_def)

text \<open>
  C10. Whatever the batch requested (also with an id repeated) and whatever the
  items of the response, the dict that \<^verbatim>\<open>videos_list_stats\<close> returns has distinct keys:
  one entry for an id that the response holds, none otherwise. The pass through
  the loop adds one row of \<open>vid\<close> to the file of \<open>vid\<close> when the response holds
  \<open>vid\<close>, and no row of \<open>vid\<close> to any other file.
\<close>

theorem one_row_per_id:
  assumes "outcome (service (requests s) batch) = Response its"
  shows "fst (videos_list_stats service batch s) = Inr (collect_items its)
     \<and> distinct (map fst (collect_items its))
     \<and> length (filter (\<lambda>kv. fst kv = vid) (collect_items its))
         = (if vid \<in> item_id ` set its then 1 else 0)
     \<and> length (rows_of vid (file_rows (snd (fetch_loop service out_dir ts_now batch attempt s)) p))
         = length (rows_of vid (file_rows s p))
           + (if vid \<in> item_id ` set its \<and> csv_path out_dir vid = p then 1 else 0)"
proof (cases "map_of (collect_items its) vid")
  case None
  then have "vid \<notin> item_id ` set its" by (simp add: map_of_collect_items_None)
  then show ?thesis
    using None by (simp add: videos_list_stats_fst[where service=service and s=s and batch=batch and its=its, OF assms] distinct_collect_items
        rows_of_fetch_loop_Response[where service=service and s=s and batch=batch and its=its, OF assms] filter_key_distinct[OF distinct_collect_items])
next
  case (Some rec)
  then have "\<not> vid \<notin> item_id ` set its"
    unfolding map_of_collect_items_None[symmetric] by simp
  then show ?thesis
    using Some by (simp add: videos_list_stats_fst[where service=service and s=s and batch=batch and its=its, OF assms] distinct_collect_items
        rows_of_fetch_loop_Response[where service=service and s=s and batch=batch and its=its, OF assms] filter_key_distinct[OF distinct_collect_items])
qed

theorem one_row_per_id_witness:
  "length (rows_of ''a'' (file_rows (snd (fetch_loop
       (const_service \<lparr>outcome = Response [item0 ''a'', item0 ''a''], latency = 0\<rparr>)
       ''data'' 0 [''a'', ''a''] 0 init_state)) ''data/a/polls.csv'')) = 1
   \<and> length (filter (\<lambda>kv. fst kv = ''a'') (collect_items [item0 ''a'', item0 ''a''])) = 1"
  using one_row_per_id [of "const_service \<lparr>outcome = Response [item0 ''a'', item0 ''a''], latency = 0\<rparr>"
      init_state "[''a'', ''a'']" "[item0 ''a'', item0 ''a'']" "''a''" "''data''" 0 0 "''data/a/polls.csv''"]
  by (simp add: const_service_def item0_def init_state_def file_rows_def rows_of_def
      csv_path_def path_join_def)

end
